theory Spec2Isabelle
  imports Main "HOL-Library.Multiset"
begin

section \<open>JavaScript values and operators used by the sources\<close>

text \<open>
  A JavaScript string is a sequence of UTF-16 code units and \<open>.length\<close>,
  \<open>substring\<close> count code units. Strings are modelled as \<open>string\<close>, one
  \<open>char\<close> per code unit. The only code unit above U+00FF that the sources write
  is the arrow U+2192 of the brief templates; it is the one-element string
  \<open>arrow\<close> below, so that lengths agree with JavaScript.
\<close>

definition arrow :: string where
  "arrow = [CHR 0xBB]"

text \<open>
  The values of payload fields (\<open>data.from\<close>, \<open>data.agent\<close>, ...):
  \<open>undefined\<close>, \<open>null\<close>, booleans and strings. Numbers and nested objects
  are left out; no field that the sources read is one.
\<close>

datatype jsval = JUndefined | JNull | JBool bool | JStr string

type_synonym payload = "(string \<times> jsval) list"

text \<open>
  An object literal is the list of its properties, keys distinct.
  \<open>data.k\<close> is the binding of \<open>k\<close>, \<open>undefined\<close> when there is none.
\<close>

definition field :: "payload \<Rightarrow> string \<Rightarrow> jsval" where
  "field d k = (case map_of d k of None \<Rightarrow> JUndefined | Some v \<Rightarrow> v)"

text \<open>\<open>a || b\<close> on an optional string: \<open>undefined\<close> and \<open>''\<close> are falsy.\<close>

definition js_or :: "string option \<Rightarrow> string \<Rightarrow> string" where
  "js_or a b = (case a of None \<Rightarrow> b | Some s \<Rightarrow> if s = [] then b else s)"

text \<open>\<open>a || null\<close> on an optional string, the result being an SQL value.\<close>

definition js_or_null :: "string option \<Rightarrow> string option" where
  "js_or_null a = (case a of None \<Rightarrow> None | Some s \<Rightarrow> if s = [] then None else Some s)"

text \<open>\<open>s.substring(0, n)\<close>.\<close>

definition substring0 :: "nat \<Rightarrow> string \<Rightarrow> string" where
  "substring0 n s = take n s"

section \<open>The persistence layer: \<open>schema.sql\<close> and \<open>database.js\<close>\<close>

text \<open>
  Rows of the tables \<open>phases\<close> and \<open>events\<close>, with the columns that the code
  under study reads or writes; the remaining columns keep their defaults. Of the
  tables \<open>projects\<close> and \<open>agents\<close> only the primary keys matter here (they are
  the targets of foreign keys; \<open>connect\<close> switches foreign keys on).
\<close>

record phase =
  ph_id :: string
  ph_project_id :: string
  ph_name :: string
  ph_display_name :: string
  ph_start_date :: "string option"
  ph_end_date :: "string option"
  ph_planned_end_date :: "string option"
  ph_status :: string

record event_row =
  er_id :: string
  er_project_id :: string
  er_type :: string
  er_subtype :: "string option"
  er_phase_id :: "string option"
  er_agent_id :: "string option"
  er_timestamp :: string
  er_brief :: string
  er_description :: "string option"
  er_data :: payload
  er_refs :: "string list"
  er_priority :: string
  er_category :: string

record db =
  projects :: "string list"
  agents :: "string list"
  phases :: "phase list"
  events :: "event_row list"

datatype sql_error = SQLITE_CONSTRAINT

text \<open>The arguments of \<open>createPhase(projectId, params)\<close>.\<close>

record phase_params =
  pp_name :: string
  pp_displayName :: "string option"
  pp_startDate :: "string option"
  pp_plannedEndDate :: "string option"
  pp_status :: "string option"

text \<open>
  \<open>createPhase\<close>: one \<open>INSERT INTO phases\<close>, then \<open>getPhase(id)\<close>. The fresh
  \<open>uuidv4()\<close> and the clock reading of \<open>new Date().toISOString()\<close> are inputs.
  The insert is rejected when it breaks the primary key, the foreign key on
  \<open>project_id\<close> or \<open>UNIQUE(project_id, name)\<close>.
\<close>

definition createPhase ::
  "string \<Rightarrow> string \<Rightarrow> string \<Rightarrow> phase_params \<Rightarrow> db \<Rightarrow> sql_error + (db \<times> phase)" where
  "createPhase uuid now projectId params d =
     (let row = \<lparr> ph_id = uuid,
                  ph_project_id = projectId,
                  ph_name = pp_name params,
                  ph_display_name = js_or (pp_displayName params) (pp_name params),
                  ph_start_date = Some (js_or (pp_startDate params) now),
                  ph_end_date = None,
                  ph_planned_end_date = pp_plannedEndDate params,
                  ph_status = js_or (pp_status params) ''pending'' \<rparr>
      in if uuid \<in> set (map ph_id (phases d))
            \<or> projectId \<notin> set (projects d)
            \<or> (projectId, pp_name params) \<in> set (map (\<lambda>r. (ph_project_id r, ph_name r)) (phases d))
         then Inl SQLITE_CONSTRAINT
         else Inr (d\<lparr>phases := phases d @ [row]\<rparr>, row))"

text \<open>
  \<open>getCurrentPhase\<close>: the active phases of the project, latest \<open>start_date\<close>
  first, \<open>LIMIT 1\<close>. Dates are ISO strings compared as text; a \<open>NULL\<close> date
  sorts below every string, and among equal dates the first row found wins.
\<close>

fun latest :: "phase list \<Rightarrow> phase option" where
  "latest [] = None"
| "latest (r # rs) =
     (case latest rs of
        None \<Rightarrow> Some r
      | Some r' \<Rightarrow>
          (case (ph_start_date r, ph_start_date r') of
             (_, None) \<Rightarrow> Some r
           | (None, Some _) \<Rightarrow> Some r'
           | (Some a, Some b) \<Rightarrow> if lexordp (\<lambda>x y. of_char x < (of_char y :: nat)) a b then Some r' else Some r))"

definition getCurrentPhase :: "string \<Rightarrow> db \<Rightarrow> phase option" where
  "getCurrentPhase projectId d =
     latest (filter (\<lambda>r. ph_project_id r = projectId \<and> ph_status r = ''active'') (phases d))"

text \<open>The arguments of \<open>logEvent(params)\<close>.\<close>

record event_params =
  ep_projectId :: string
  ep_type :: string
  ep_subtype :: "string option"
  ep_phaseId :: "string option"
  ep_agentId :: "string option"
  ep_brief :: string
  ep_description :: "string option"
  ep_data :: "payload option"
  ep_refs :: "string list option"
  ep_priority :: "string option"
  ep_category :: "string option"

text \<open>
  \<open>logEvent\<close>: one \<open>INSERT INTO events\<close>, the brief cut to 60 code units, then
  the row is read back. The column \<open>timestamp\<close> defaults to
  \<open>CURRENT_TIMESTAMP\<close>, an input here as is the fresh id.
\<close>

definition logEvent ::
  "string \<Rightarrow> string \<Rightarrow> event_params \<Rightarrow> db \<Rightarrow> sql_error + (db \<times> event_row)" where
  "logEvent uuid now params d =
     (let row = \<lparr> er_id = uuid,
                  er_project_id = ep_projectId params,
                  er_type = ep_type params,
                  er_subtype = js_or_null (ep_subtype params),
                  er_phase_id = js_or_null (ep_phaseId params),
                  er_agent_id = js_or_null (ep_agentId params),
                  er_timestamp = now,
                  er_brief = substring0 60 (ep_brief params),
                  er_description = js_or_null (ep_description params),
                  er_data = (case ep_data params of None \<Rightarrow> [] | Some x \<Rightarrow> x),
                  er_refs = (case ep_refs params of None \<Rightarrow> [] | Some x \<Rightarrow> x),
                  er_priority = js_or (ep_priority params) ''medium'',
                  er_category = js_or (ep_category params) ''system'' \<rparr>
      in if uuid \<in> set (map er_id (events d))
            \<or> er_project_id row \<notin> set (projects d)
            \<or> (case er_phase_id row of None \<Rightarrow> False | Some p \<Rightarrow> p \<notin> set (map ph_id (phases d)))
            \<or> (case er_agent_id row of None \<Rightarrow> False | Some a \<Rightarrow> a \<notin> set (agents d))
         then Inl SQLITE_CONSTRAINT
         else Inr (d\<lparr>events := events d @ [row]\<rparr>, row))"

section \<open>The tool handler \<open>mcp__pdl__transition_phase\<close> of \<open>server.js\<close>\<close>

record transition_args =
  projectId :: string
  fromPhase :: string
  toPhase :: string
  gateApproval :: "bool option"
  "notes" :: "string option"
  triggeredBy :: string

text \<open>
  The two \<open>UPDATE phases ... WHERE project_id = ? AND name = ?\<close> statements.
  \<open>CURRENT_TIMESTAMP\<close> is the input \<open>now\<close>.
\<close>

definition oldPhaseSQL :: "string \<Rightarrow> string \<Rightarrow> string \<Rightarrow> db \<Rightarrow> db" where
  "oldPhaseSQL now pid nm d =
     d\<lparr>phases := map (\<lambda>r. if ph_project_id r = pid \<and> ph_name r = nm
                            then r\<lparr>ph_status := ''completed'', ph_end_date := Some now\<rparr>
                            else r) (phases d)\<rparr>"

definition newPhaseSQL :: "string \<Rightarrow> string \<Rightarrow> string \<Rightarrow> db \<Rightarrow> db" where
  "newPhaseSQL now pid nm d =
     d\<lparr>phases := map (\<lambda>r. if ph_project_id r = pid \<and> ph_name r = nm
                            then r\<lparr>ph_status := ''active'', ph_start_date := Some now\<rparr>
                            else r) (phases d)\<rparr>"

text \<open>The parameters that the handler passes to \<open>logEvent\<close>.\<close>

definition transition_event :: "transition_args \<Rightarrow> event_params" where
  "transition_event args =
     \<lparr> ep_projectId = projectId args,
       ep_type = ''phase_transition'',
       ep_subtype = None,
       ep_phaseId = None,
       ep_agentId = Some (triggeredBy args),
       ep_brief = ''Phase transition: '' @ fromPhase args @ '' '' @ arrow @ '' '' @ toPhase args,
       ep_description = notes args,
       ep_data = Some [(''fromPhase'', JStr (fromPhase args)),
                       (''toPhase'', JStr (toPhase args)),
                       (''gateApproval'', (case gateApproval args of None \<Rightarrow> JUndefined | Some b \<Rightarrow> JBool b))],
       ep_refs = None,
       ep_priority = None,
       ep_category = None \<rparr>"

text \<open>
  What the tool call answers: the JSON text of \<open>{success: true, fromPhase, toPhase}\<close>,
  or the \<open>McpError\<close> with code \<open>InternalError\<close> that the \<open>catch\<close> of the
  request handler throws.
\<close>

datatype mcp_error = InternalError sql_error

datatype tool_result = Success string string

text \<open>
  The handler: three awaited statements in a row, none of them inside a transaction;
  \<open>t1\<close>, \<open>t2\<close>, \<open>t3\<close> are the clock readings of the three statements and
  \<open>uuid\<close> the id drawn by \<open>logEvent\<close>. The database that results is returned on
  both paths, since the updates are committed before the insert is tried.
\<close>

definition transition_phase ::
  "string \<Rightarrow> string \<Rightarrow> string \<Rightarrow> string \<Rightarrow> transition_args \<Rightarrow> db \<Rightarrow> db \<times> (mcp_error + tool_result)" where
  "transition_phase t1 t2 t3 uuid args d =
     (let d1 = oldPhaseSQL t1 (projectId args) (fromPhase args) d;
          d2 = newPhaseSQL t2 (projectId args) (toPhase args) d1
      in case logEvent uuid t3 (transition_event args) d2 of
           Inl e \<Rightarrow> (d2, Inl (InternalError e))
         | Inr (d3, row) \<Rightarrow> (d3, Inr (Success (fromPhase args) (toPhase args))))"

text \<open>
  The two write operations on \<open>phases\<close> that the server exposes as tools:
  \<open>mcp__pdl__create_phase\<close>, which hands its arguments to \<open>createPhase\<close> (a
  rejected insert leaves the database as it was), and
  \<open>mcp__pdl__transition_phase\<close>.
\<close>

datatype op =
    CreatePhase string string string phase_params
  | TransitionPhase string string string string transition_args

fun apply_op :: "db \<Rightarrow> op \<Rightarrow> db" where
  "apply_op d (CreatePhase uuid now pid params) =
     (case createPhase uuid now pid params d of Inl e \<Rightarrow> d | Inr (d', row) \<Rightarrow> d')"
| "apply_op d (TransitionPhase t1 t2 t3 uuid args) = fst (transition_phase t1 t2 t3 uuid args d)"

definition apply_ops :: "db \<Rightarrow> op list \<Rightarrow> db" where
  "apply_ops d ops = foldl apply_op d ops"

definition active_phases :: "string \<Rightarrow> db \<Rightarrow> phase list" where
  "active_phases pid d = filter (\<lambda>r. ph_project_id r = pid \<and> ph_status r = ''active'') (phases d)"


subsection \<open>Requests in flight\<close>

text \<open>
  The handler is an \<open>async\<close> function: it gives control back at each of its three
  \<open>await\<close>s, and the server starts a handler for each request as it arrives. A
  request in flight is therefore at one of three statements or has returned, and
  each statement is one atomic step on the database.
\<close>

datatype pc = AtOldPhaseSQL | AtNewPhaseSQL | AtLogEvent | Returned "mcp_error + tool_result"

datatype stmt = OldPhaseUpdate | NewPhaseUpdate | EventInsert

fun step_call :: "string \<Rightarrow> string \<Rightarrow> transition_args \<Rightarrow> pc \<Rightarrow> db \<Rightarrow> pc \<times> db" where
  "step_call now uuid args AtOldPhaseSQL d =
     (AtNewPhaseSQL, oldPhaseSQL now (projectId args) (fromPhase args) d)"
| "step_call now uuid args AtNewPhaseSQL d =
     (AtLogEvent, newPhaseSQL now (projectId args) (toPhase args) d)"
| "step_call now uuid args AtLogEvent d =
     (case logEvent uuid now (transition_event args) d of
        Inl e \<Rightarrow> (Returned (Inl (InternalError e)), d)
      | Inr (d', row) \<Rightarrow> (Returned (Inr (Success (fromPhase args) (toPhase args))), d'))"
| "step_call now uuid args (Returned r) d = (Returned r, d)"

fun stmt_at :: "pc \<Rightarrow> stmt list" where
  "stmt_at AtOldPhaseSQL = [OldPhaseUpdate]"
| "stmt_at AtNewPhaseSQL = [NewPhaseUpdate]"
| "stmt_at AtLogEvent = [EventInsert]"
| "stmt_at (Returned r) = []"


text \<open>
  The requests in flight on one database, indexed by a request id of type \<open>'r\<close>:
  \<open>calls\<close> gives each request the id its \<open>logEvent\<close> will draw and its
  arguments, \<open>pcs\<close> says where each request stands. \<open>issued\<close> lists the
  statements that reached the database, each with the request it came from. The
  state holds nothing else: the server keeps no table of running transitions.
\<close>

record 'r in_flight =
  pcs :: "'r \<Rightarrow> pc"
  store :: db
  issued :: "('r \<times> stmt) list"

definition start :: "db \<Rightarrow> 'r in_flight" where
  "start d = \<lparr> pcs = (\<lambda>i. AtOldPhaseSQL), store = d, issued = [] \<rparr>"

text \<open>
  A schedule says which request runs its next statement, and the clock reading of
  that statement.
\<close>

definition step :: "('r \<Rightarrow> string \<times> transition_args) \<Rightarrow> 'r in_flight \<Rightarrow> 'r \<times> string \<Rightarrow> 'r in_flight" where
  "step calls s x =
     (case x of (who, now) \<Rightarrow>
        (case step_call now (fst (calls who)) (snd (calls who)) (pcs s who) (store s) of
           (p, d) \<Rightarrow> s\<lparr>pcs := (pcs s)(who := p), store := d,
                        issued := issued s @ map (Pair who) (stmt_at (pcs s who))\<rparr>))"

definition run :: "('r \<Rightarrow> string \<times> transition_args) \<Rightarrow> 'r in_flight \<Rightarrow> ('r \<times> string) list \<Rightarrow> 'r in_flight" where
  "run calls s sch = foldl (step calls) s sch"

text \<open>When SQLite accepts the event row of a transition.\<close>

definition insert_accepted :: "string \<Rightarrow> transition_args \<Rightarrow> db \<Rightarrow> bool" where
  "insert_accepted uuid args d \<longleftrightarrow>
     uuid \<notin> set (map er_id (events d)) \<and> projectId args \<in> set (projects d)
     \<and> (triggeredBy args = [] \<or> triggeredBy args \<in> set (agents d))"

text \<open>The two updates of a transition seen as one change of a row.\<close>

definition relabel :: "string \<Rightarrow> string \<Rightarrow> transition_args \<Rightarrow> phase \<Rightarrow> phase" where
  "relabel t1 t2 args r =
     (let r1 = (if ph_project_id r = projectId args \<and> ph_name r = fromPhase args
                then r\<lparr>ph_status := ''completed'', ph_end_date := Some t1\<rparr> else r)
      in if ph_project_id r1 = projectId args \<and> ph_name r1 = toPhase args
         then r1\<lparr>ph_status := ''active'', ph_start_date := Some t2\<rparr> else r1)"




section \<open>The event bus: class \<open>PDLFramework\<close>\<close>

subsection \<open>Built-in functions of the language\<close>

text \<open>\<open>String(v)\<close>, which a template literal applies to each \<open>${...}\<close>.\<close>

fun to_string :: "jsval \<Rightarrow> string" where
  "to_string JUndefined = ''undefined''"
| "to_string JNull = ''null''"
| "to_string (JBool b) = (if b then ''true'' else ''false'')"
| "to_string (JStr s) = s"

text \<open>
  \<open>JSON.stringify\<close> on a payload: properties in order, those whose value is
  \<open>undefined\<close> left out, strings quoted with the quote, the backslash and the
  control characters escaped.
\<close>

definition hex_digit :: "nat \<Rightarrow> char" where
  "hex_digit n = (if n < 10 then char_of (48 + n) else char_of (87 + n))"

definition json_char :: "char \<Rightarrow> string" where
  "json_char c =
     (let n = (of_char c :: nat) in
      if n = 34 then [CHR 0x5C, CHR 0x22]
      else if n = 92 then [CHR 0x5C, CHR 0x5C]
      else if n = 8 then [CHR 0x5C, CHR ''b'']
      else if n = 12 then [CHR 0x5C, CHR ''f'']
      else if n = 10 then [CHR 0x5C, CHR ''n'']
      else if n = 13 then [CHR 0x5C, CHR ''r'']
      else if n = 9 then [CHR 0x5C, CHR ''t'']
      else if n < 32 then [CHR 0x5C, CHR ''u'', CHR ''0'', CHR ''0'', hex_digit (n div 16), hex_digit (n mod 16)]
      else [c])"

definition json_string :: "string \<Rightarrow> string" where
  "json_string s = [CHR 0x22] @ concat (map json_char s) @ [CHR 0x22]"

fun json_value :: "jsval \<Rightarrow> string" where
  "json_value JUndefined = ''''"
| "json_value JNull = ''null''"
| "json_value (JBool b) = (if b then ''true'' else ''false'')"
| "json_value (JStr s) = json_string s"

fun join_comma :: "string list \<Rightarrow> string" where
  "join_comma [] = ''''"
| "join_comma [x] = x"
| "join_comma (x # y # ys) = x @ '','' @ join_comma (y # ys)"

definition JSON_stringify :: "payload \<Rightarrow> string" where
  "JSON_stringify d =
     ''{'' @ join_comma (map (\<lambda>(k, v). json_string k @ '':'' @ json_value v)
                             (filter (\<lambda>(k, v). v \<noteq> JUndefined) d)) @ ''}''"

text \<open>
  \<open>xs.slice(start)\<close>: a negative \<open>start\<close> counts from the end, and both
  directions are clamped to the array.
\<close>

definition js_slice :: "int \<Rightarrow> 'a list \<Rightarrow> 'a list" where
  "js_slice i xs =
     (let n = int (length xs);
          k = (if i < 0 then max (n + i) 0 else min i n)
      in drop (nat k) xs)"

text \<open>\<open>Set.prototype.add\<close> on a set kept in insertion order.\<close>

definition set_add :: "'a \<Rightarrow> 'a list \<Rightarrow> 'a list" where
  "set_add x xs = (if x \<in> set xs then xs else xs @ [x])"

text \<open>
  \<open>localStorage\<close> is a store of items under string keys; \<open>setItem\<close> puts an
  item under its key, in place of the one that was there. The store keeps no order
  of its keys that a program could rely on, and the class never lists them.
\<close>

type_synonym 'v storage = "string \<Rightarrow> 'v option"

definition setItem :: "string \<Rightarrow> 'v \<Rightarrow> 'v storage \<Rightarrow> 'v storage" where
  "setItem k v st = st(k \<mapsto> v)"

subsection \<open>Data\<close>

record event =
  ev_id :: string
  ev_type :: string
  ev_timestamp :: string
  ev_phase :: jsval
  ev_data :: payload
  ev_brief :: string
  ev_references :: "string list"
  ev_agent :: string

text \<open>The third argument of \<open>emit\<close>.\<close>

record emit_options =
  opt_brief :: "string option"
  opt_references :: "string list option"
  opt_agent :: "string option"

text \<open>
  A handler either returns or throws, and in both cases it has done something. The
  three handlers that \<open>registerDefaultHooks\<close> installs act on the fields of the
  framework. A handler that a caller registers is a closure over the caller's own
  state, of type \<open>'w\<close> here; it reads the event and does not write the fields of
  the framework. \<open>Throws\<close> stands for a call \<open>hook.fn(event)\<close> that throws
  into the \<open>try\<close> of \<open>executeHooks\<close>. The call of an \<open>async\<close> function
  never does: it returns a promise, so such a handler is one that returns, with the
  effect of its part up to the first \<open>await\<close>; if the promise is rejected, the
  \<open>catch\<close> on it writes to the console after \<open>executeHooks\<close> has returned.
\<close>

datatype 'w outcome = Returns 'w | Throws 'w

datatype 'w handler =
    SetCurrentPhase
  | AddActiveAgent
  | WriteDevelopmentNote
  | Custom "event \<Rightarrow> 'w \<Rightarrow> 'w outcome"

record 'w hook =
  fn :: "'w handler"
  priority :: int
  async :: bool

record hook_options =
  opt_priority :: "int option"
  opt_async :: "bool option"

record dev_note =
  note_timestamp :: string
  note_phase :: jsval
  note_type :: string
  note_brief :: string
  note_references :: "string list"
  note_agent :: string

datatype readyState = CONNECTING | OPEN | CLOSING | CLOSED

datatype level = LOG | WARN | ERROR

text \<open>
  The fields of the class, followed by the parts of the browser that its methods
  write: the messages handed to \<open>ws.send\<close>, \<open>localStorage\<close>, the console, the
  calls of \<open>window.callMCP\<close>, and the state of the callers' handlers. A message
  or a stored item is the event itself rather than its JSON text. The page's SVG is
  not part of the state: the methods that repaint it write none of these fields.
\<close>

record 'w PDLFramework =
  wsUrl :: "string option"
  offlineMode :: bool
  eventHistory :: "event list"
  currentPhase :: jsval
  activeAgents :: "jsval list"
  hooks :: "string \<Rightarrow> 'w hook list option"
  ws :: "readyState option"
  reconnectInterval :: nat
  maxEventHistory :: int
  sent :: "event list"
  localStorage :: "event storage"
  console :: "(level \<times> string) list"
  mcpAvailable :: bool
  mcpCalls :: "dev_note list"
  world :: "'w"

subsection \<open>Methods\<close>

definition addToHistory :: "event \<Rightarrow> 'w PDLFramework \<Rightarrow> 'w PDLFramework" where
  "addToHistory event fw =
     (let pushed = eventHistory fw @ [event]
      in if int (length pushed) > maxEventHistory fw
         then fw\<lparr>eventHistory := js_slice (- maxEventHistory fw) pushed\<rparr>
         else fw\<lparr>eventHistory := pushed\<rparr>)"

definition generateBrief :: "string \<Rightarrow> payload \<Rightarrow> string" where
  "generateBrief eventType data =
     (if eventType = ''phase_transition''
        then ''Phase: '' @ to_string (field data ''from'') @ '' '' @ arrow @ '' '' @ to_string (field data ''to'')
      else if eventType = ''agent_assigned''
        then ''Agent: '' @ to_string (field data ''agent'') @ '' ('' @ to_string (field data ''role'') @ '')''
      else if eventType = ''discovery''
        then ''Found: '' @ to_string (field data ''summary'')
      else if eventType = ''research_complete''
        then ''Research: '' @ to_string (field data ''topic'') @ '' - '' @ to_string (field data ''conclusion'')
      else if eventType = ''gate_review''
        then ''Gate '' @ to_string (field data ''gate'') @ '': '' @ to_string (field data ''status'')
      else eventType @ '': '' @ substring0 50 (JSON_stringify data) @ ''...'')"

text \<open>\<open>Array.prototype.sort\<close> with the comparator \<open>b.priority - a.priority\<close>;
  the sort is stable (ECMAScript 2019).\<close>

definition sort_by_priority :: "'w hook list \<Rightarrow> 'w hook list" where
  "sort_by_priority hs = sort_key (\<lambda>h. - priority h) hs"

text \<open>\<open>this.hooks.get(eventType) || []\<close>.\<close>

definition hooks_for :: "'w PDLFramework \<Rightarrow> string \<Rightarrow> 'w hook list" where
  "hooks_for fw eventType = (case hooks fw eventType of None \<Rightarrow> [] | Some hs \<Rightarrow> hs)"

definition registerHook :: "string \<Rightarrow> 'w handler \<Rightarrow> hook_options \<Rightarrow> 'w PDLFramework \<Rightarrow> 'w PDLFramework" where
  "registerHook eventType hookFn options fw =
     (let pushed = hooks_for fw eventType @
                     [\<lparr> fn = hookFn,
                        priority = (case opt_priority options of None \<Rightarrow> 0 | Some p \<Rightarrow> p),
                        async = (case opt_async options of None \<Rightarrow> False | Some b \<Rightarrow> b) \<rparr>]
      in fw\<lparr>hooks := (hooks fw)(eventType \<mapsto> sort_by_priority pushed)\<rparr>)"

definition writeDevelopmentNote :: "event \<Rightarrow> 'w PDLFramework \<Rightarrow> 'w PDLFramework" where
  "writeDevelopmentNote event fw =
     (let note = \<lparr> note_timestamp = ev_timestamp event,
                   note_phase = ev_phase event,
                   note_type = ev_type event,
                   note_brief = ev_brief event,
                   note_references = ev_references event,
                   note_agent = ev_agent event \<rparr>
      in if mcpAvailable fw
         then fw\<lparr>mcpCalls := mcpCalls fw @ [note]\<rparr>
         else fw\<lparr>console := console fw @ [(LOG, ''Development Note:'')]\<rparr>)"

text \<open>
  \<open>hook.fn(event)\<close>. The agent handler adds to the set and then calls
  \<open>this.updateAgentVisualization()\<close>, a method that the class does not define:
  the call throws a \<open>TypeError\<close>, after the set has been written.
\<close>

fun call_fn :: "'w handler \<Rightarrow> event \<Rightarrow> 'w PDLFramework \<Rightarrow> 'w PDLFramework outcome" where
  "call_fn SetCurrentPhase event fw = Returns (fw\<lparr>currentPhase := field (ev_data event) ''to''\<rparr>)"
| "call_fn AddActiveAgent event fw =
     Throws (fw\<lparr>activeAgents := set_add (field (ev_data event) ''agent'') (activeAgents fw)\<rparr>)"
| "call_fn WriteDevelopmentNote event fw = Returns (writeDevelopmentNote event fw)"
| "call_fn (Custom f) event fw =
     (case f event (world fw) of
        Returns w \<Rightarrow> Returns (fw\<lparr>world := w\<rparr>)
      | Throws w \<Rightarrow> Throws (fw\<lparr>world := w\<rparr>))"

text \<open>
  The body of \<open>hooks.forEach\<close>: whether \<open>hook.async\<close> is set or not,
  \<open>hook.fn(event)\<close> is called inside the \<open>try\<close>, and what it throws is caught
  and written to \<open>console.error\<close>. Beside the state, the loop returns which
  handlers it called, in order, each with whether it threw.
\<close>

fun forEach :: "'w hook list \<Rightarrow> string \<Rightarrow> event \<Rightarrow> 'w PDLFramework \<Rightarrow> 'w PDLFramework \<times> ('w hook \<times> bool) list" where
  "forEach [] eventType event fw = (fw, [])"
| "forEach (hook # rest) eventType event fw =
     (case call_fn (fn hook) event fw of
        Returns fw1 \<Rightarrow>
          (case forEach rest eventType event fw1 of (fw2, called) \<Rightarrow> (fw2, (hook, False) # called))
      | Throws fw1 \<Rightarrow>
          (case forEach rest eventType event
                  (fw1\<lparr>console := console fw1 @ [(ERROR, ''Hook error for '' @ eventType @ '':'')]\<rparr>) of
             (fw2, called) \<Rightarrow> (fw2, (hook, True) # called)))"

definition executeHooks :: "string \<Rightarrow> event \<Rightarrow> 'w PDLFramework \<Rightarrow> 'w PDLFramework \<times> ('w hook \<times> bool) list" where
  "executeHooks eventType event fw = forEach (hooks_for fw eventType) eventType event fw"

definition no_options :: hook_options where
  "no_options = \<lparr> opt_priority = None, opt_async = None \<rparr>"

definition registerDefaultHooks :: "'w PDLFramework \<Rightarrow> 'w PDLFramework" where
  "registerDefaultHooks fw =
     registerHook ''development_note'' WriteDevelopmentNote no_options
       (registerHook ''agent_assigned'' AddActiveAgent no_options
         (registerHook ''phase_transition'' SetCurrentPhase no_options fw))"

definition sendToServer :: "event \<Rightarrow> 'w PDLFramework \<Rightarrow> 'w PDLFramework" where
  "sendToServer event fw =
     (if \<not> offlineMode fw \<and> ws fw = Some OPEN
        then fw\<lparr>sent := sent fw @ [event]\<rparr>
      else if offlineMode fw
        then fw\<lparr>localStorage := setItem (''pdl_event_'' @ ev_id event) event (localStorage fw)\<rparr>
      else fw)"

text \<open>
  The object that \<open>emit\<close> builds. The id that \<open>generateEventId\<close> draws and the
  clock reading are inputs.
\<close>

definition new_event :: "'w PDLFramework \<Rightarrow> string \<Rightarrow> payload \<Rightarrow> emit_options \<Rightarrow> string \<Rightarrow> string \<Rightarrow> event" where
  "new_event fw eventType data options eid now =
     \<lparr> ev_id = eid,
       ev_type = eventType,
       ev_timestamp = now,
       ev_phase = currentPhase fw,
       ev_data = data,
       ev_brief = js_or (opt_brief options) (generateBrief eventType data),
       ev_references = (case opt_references options of None \<Rightarrow> [] | Some r \<Rightarrow> r),
       ev_agent = js_or (opt_agent options) ''system'' \<rparr>"

definition emit :: "string \<Rightarrow> payload \<Rightarrow> emit_options \<Rightarrow> string \<Rightarrow> string \<Rightarrow> 'w PDLFramework \<Rightarrow> 'w PDLFramework \<times> string" where
  "emit eventType data options eid now fw =
     (let event = new_event fw eventType data options eid now;
          fw1 = addToHistory event fw;
          fw2 = fst (executeHooks eventType event fw1);
          fw3 = sendToServer event fw2
      in (fw3, ev_id event))"

definition handleIncomingEvent :: "event \<Rightarrow> 'w PDLFramework \<Rightarrow> 'w PDLFramework" where
  "handleIncomingEvent data fw = fst (executeHooks (ev_type data) data (addToHistory data fw))"

definition no_opts :: emit_options where
  "no_opts = \<lparr> opt_brief = None, opt_references = None, opt_agent = None \<rparr>"

definition onConnectionOpen :: "string \<Rightarrow> string \<Rightarrow> 'w PDLFramework \<Rightarrow> 'w PDLFramework" where
  "onConnectionOpen eid now fw =
     fst (emit ''system'' [(''type'', JStr ''connection''), (''status'', JStr ''connected'')] no_opts eid now
            (fw\<lparr>console := console fw @ [(LOG, ''PDL WebSocket connected'')]\<rparr>))"

text \<open>
  \<open>initWebSocket\<close>: \<open>connects\<close> says whether \<open>new WebSocket(this.wsUrl)\<close>
  returned a socket, which then is connecting, or threw.
\<close>

definition initWebSocket :: "bool \<Rightarrow> 'w PDLFramework \<Rightarrow> 'w PDLFramework" where
  "initWebSocket connects fw =
     (if connects then fw\<lparr>ws := Some CONNECTING\<rparr>
      else fw\<lparr>console := console fw @ [(WARN, ''WebSocket unavailable, running in offline mode'')]\<rparr>)"

text \<open>The constructor's \<open>options\<close>, and what it finds in the browser.\<close>

record options =
  opt_wsUrl :: "string option"
  opt_offline :: "bool option"

record 'w browser =
  env_connects :: bool
  env_localStorage :: "event storage"
  env_mcpAvailable :: bool
  env_world :: "'w"

definition constructor :: "options \<Rightarrow> 'w browser \<Rightarrow> 'w PDLFramework" where
  "constructor opts env =
     (let url = js_or_null (opt_wsUrl opts);
          offline = (opt_offline opts \<noteq> Some False \<and> url = None);
          this = \<lparr> wsUrl = url, offlineMode = offline, eventHistory = [],
                   currentPhase = JStr ''discovery'', activeAgents = [], hooks = Map.empty,
                   ws = None, reconnectInterval = 5000, maxEventHistory = 1000,
                   sent = [], localStorage = env_localStorage env, console = [],
                   mcpAvailable = env_mcpAvailable env, mcpCalls = [], world = env_world env \<rparr>
      in registerDefaultHooks
           (if \<not> offline then initWebSocket (env_connects env) this
            else this\<lparr>console := [(LOG, ''PDL Framework running in offline mode'')]\<rparr>))"

text \<open>\<open>getCurrentState\<close>; \<open>this.ws && ...\<close> is \<open>null\<close> when there is no socket.\<close>

record snapshot =
  snap_phase :: jsval
  snap_activeAgents :: "jsval list"
  snap_recentEvents :: "event list"
  snap_connected :: jsval

definition getCurrentState :: "'w PDLFramework \<Rightarrow> snapshot" where
  "getCurrentState fw =
     \<lparr> snap_phase = currentPhase fw,
       snap_activeAgents = activeAgents fw,
       snap_recentEvents = js_slice (- 10) (eventHistory fw),
       snap_connected = (case ws fw of None \<Rightarrow> JNull | Some rs \<Rightarrow> JBool (rs = OPEN)) \<rparr>"

text \<open>The API methods, which supply their own brief.\<close>

definition transitionPhase :: "string \<Rightarrow> string \<Rightarrow> string \<Rightarrow> string \<Rightarrow> string \<Rightarrow> 'w PDLFramework \<Rightarrow> 'w PDLFramework \<times> string" where
  "transitionPhase from_phase to_phase reason eid now fw =
     emit ''phase_transition''
       [(''from'', JStr from_phase), (''to'', JStr to_phase), (''reason'', JStr reason)]
       \<lparr> opt_brief = Some (''Phase: '' @ from_phase @ '' '' @ arrow @ '' '' @ to_phase),
         opt_references = Some (if reason \<noteq> [] then [''reason: '' @ reason] else []),
         opt_agent = None \<rparr>
       eid now fw"

definition assignAgent :: "string \<Rightarrow> string \<Rightarrow> string \<Rightarrow> string \<Rightarrow> string \<Rightarrow> 'w PDLFramework \<Rightarrow> 'w PDLFramework \<times> string" where
  "assignAgent agentType role task eid now fw =
     emit ''agent_assigned''
       [(''agent'', JStr agentType), (''role'', JStr role), (''task'', JStr task)]
       \<lparr> opt_brief = Some (agentType @ '' assigned as '' @ role),
         opt_references = Some (if task \<noteq> [] then [''task: '' @ task] else []),
         opt_agent = None \<rparr>
       eid now fw"

definition logDiscovery :: "string \<Rightarrow> string \<Rightarrow> string \<Rightarrow> string \<Rightarrow> string \<Rightarrow> 'w PDLFramework \<Rightarrow> 'w PDLFramework \<times> string" where
  "logDiscovery finding source confidence eid now fw =
     emit ''discovery''
       [(''finding'', JStr finding), (''source'', JStr source), (''confidence'', JStr confidence)]
       \<lparr> opt_brief = Some (''Discovery: '' @ substring0 40 finding @ ''...''),
         opt_references = Some (if source \<noteq> [] then [source] else []),
         opt_agent = None \<rparr>
       eid now fw"

subsection \<open>Runs\<close>

text \<open>
  What happens to an instance after its construction: a call of \<open>emit\<close>, an event
  from a peer (a message that parsed), a call of \<open>registerHook\<close> by a caller, the
  socket opening or closing, the reconnect timer firing.
\<close>

datatype 'w action =
    Emit string payload emit_options string string
  | Incoming event
  | RegisterHook string "event \<Rightarrow> 'w \<Rightarrow> 'w outcome" hook_options
  | SocketOpen string string
  | SocketClose
  | Reconnect bool

fun perform :: "'w PDLFramework \<Rightarrow> 'w action \<Rightarrow> 'w PDLFramework" where
  "perform fw (Emit eventType data options eid now) = fst (emit eventType data options eid now fw)"
| "perform fw (Incoming data) = handleIncomingEvent data fw"
| "perform fw (RegisterHook eventType f options) = registerHook eventType (Custom f) options fw"
| "perform fw (SocketOpen eid now) = onConnectionOpen eid now (fw\<lparr>ws := Some OPEN\<rparr>)"
| "perform fw SocketClose =
     fw\<lparr>ws := Some CLOSED,
        console := console fw @ [(LOG, ''PDL WebSocket disconnected, attempting reconnect...'')]\<rparr>"
| "perform fw (Reconnect connects) = initWebSocket connects fw"

definition performs :: "'w PDLFramework \<Rightarrow> 'w action list \<Rightarrow> 'w PDLFramework" where
  "performs fw acts = foldl perform fw acts"

text \<open>
  The event that an action appends to the history, if it appends one, and whether
  this instance built it (\<open>True\<close>) or a peer did.
\<close>

fun arrival :: "'w PDLFramework \<Rightarrow> 'w action \<Rightarrow> (bool \<times> event) list" where
  "arrival fw (Emit eventType data options eid now) = [(True, new_event fw eventType data options eid now)]"
| "arrival fw (Incoming data) = [(False, data)]"
| "arrival fw (SocketOpen eid now) =
     [(True, new_event fw ''system'' [(''type'', JStr ''connection''), (''status'', JStr ''connected'')] no_opts eid now)]"
| "arrival fw a = []"

fun arrivals :: "'w PDLFramework \<Rightarrow> 'w action list \<Rightarrow> (bool \<times> event) list" where
  "arrivals fw [] = []"
| "arrivals fw (a # acts) = arrival fw a @ arrivals (perform fw a) acts"

text \<open>The events of a run that this instance built.\<close>

definition emitted :: "'w PDLFramework \<Rightarrow> 'w action list \<Rightarrow> event list" where
  "emitted fw acts = map snd (filter fst (arrivals fw acts))"

text \<open>The last \<open>n\<close> elements of a list.\<close>

definition lastn :: "nat \<Rightarrow> 'a list \<Rightarrow> 'a list" where
  "lastn n xs = drop (length xs - n) xs"

text \<open>Calls of \<open>emit\<close> among the actions, and the id that the call was given.\<close>

fun is_emit :: "'w action \<Rightarrow> bool" where
  "is_emit (Emit eventType data options eid now) = True"
| "is_emit a = False"

fun emit_id :: "'w action \<Rightarrow> string" where
  "emit_id (Emit eventType data options eid now) = eid"
| "emit_id a = []"

text \<open>The line that the \<open>catch\<close> of \<open>executeHooks\<close> writes, and the error lines of a console.\<close>

definition hook_error :: "string \<Rightarrow> level \<times> string" where
  "hook_error eventType = (ERROR, ''Hook error for '' @ eventType @ '':'')"

definition errors :: "(level \<times> string) list \<Rightarrow> (level \<times> string) list" where
  "errors lines = filter (\<lambda>l. fst l = ERROR) lines"

text \<open>
  The state after one round of the loop of \<open>executeHooks\<close>: the handler has been
  called and, if it threw, the error line is on the console.
\<close>

definition after_call :: "string \<Rightarrow> event \<Rightarrow> 'w PDLFramework \<Rightarrow> 'w hook \<Rightarrow> 'w PDLFramework" where
  "after_call eventType event fw hook =
     (case call_fn (fn hook) event fw of
        Returns fw1 \<Rightarrow> fw1
      | Throws fw1 \<Rightarrow> fw1\<lparr>console := console fw1 @ [hook_error eventType]\<rparr>)"

text \<open>
  The binding that a call of \<open>registerHook\<close> for the event type \<open>t\<close> pushes,
  and the bindings of \<open>t\<close> in the order of their registration: those present at
  the start of a run, then those of the run.
\<close>

fun registration :: "string \<Rightarrow> 'w action \<Rightarrow> 'w hook list" where
  "registration t (RegisterHook eventType f options) =
     (if eventType = t
      then [\<lparr> fn = Custom f,
               priority = (case opt_priority options of None \<Rightarrow> 0 | Some p \<Rightarrow> p),
               async = (case opt_async options of None \<Rightarrow> False | Some b \<Rightarrow> b) \<rparr>]
      else [])"
| "registration t a = []"

definition registered :: "'w PDLFramework \<Rightarrow> 'w action list \<Rightarrow> string \<Rightarrow> 'w hook list" where
  "registered fw acts t = hooks_for fw t @ concat (map (registration t) acts)"

text \<open>
  The key under which \<open>sendToServer\<close> stores an event, and the event that
  \<open>onConnectionOpen\<close> emits.
\<close>

definition storage_key :: "event \<Rightarrow> string" where
  "storage_key e = ''pdl_event_'' @ ev_id e"

definition connection_event :: "'w PDLFramework \<Rightarrow> string \<Rightarrow> string \<Rightarrow> event" where
  "connection_event fw eid now =
     new_event fw ''system'' [(''type'', JStr ''connection''), (''status'', JStr ''connected'')] no_opts eid now"


definition bound_to :: "'w handler \<Rightarrow> 'w PDLFramework \<Rightarrow> string \<Rightarrow> bool" where
  "bound_to f fw t = list_ex (\<lambda>h. fn h = f) (hooks_for fw t)"

definition defaults_in_place :: "'w PDLFramework \<Rightarrow> bool" where
  "defaults_in_place fw \<longleftrightarrow>
     (\<forall>t. bound_to SetCurrentPhase fw t = (t = ''phase_transition''))
     \<and> (\<forall>t. bound_to AddActiveAgent fw t = (t = ''agent_assigned''))"

section \<open>Concrete inputs\<close>

text \<open>
  A project \<open>P\<close> with one registered agent \<open>A\<close>, and the three phases that the
  repository's own test script creates first: \<open>discovery\<close> active, the others
  pending.
\<close>

definition P_empty :: db where
  "P_empty = \<lparr> projects = [''P''], agents = [''A''], phases = [], events = [] \<rparr>"

definition new_phase :: "string \<Rightarrow> string option \<Rightarrow> phase_params" where
  "new_phase n st = \<lparr> pp_name = n, pp_displayName = None, pp_startDate = Some ''2025-01-01'',
                       pp_plannedEndDate = Some ''2025-02-01'', pp_status = st \<rparr>"

definition three_phases :: "op list" where
  "three_phases =
     [CreatePhase ''1'' ''2025-01-01'' ''P'' (new_phase ''discovery'' (Some ''active'')),
      CreatePhase ''2'' ''2025-01-01'' ''P'' (new_phase ''planning'' None),
      CreatePhase ''3'' ''2025-01-01'' ''P'' (new_phase ''development'' None)]"

definition P_phases :: db where
  "P_phases = apply_ops P_empty three_phases"

definition move :: "string \<Rightarrow> string \<Rightarrow> transition_args" where
  "move a b = \<lparr> projectId = ''P'', fromPhase = a, toPhase = b, gateApproval = Some True,
                notes = None, triggeredBy = ''A'' \<rparr>"




text \<open>
  An instance constructed without options in a browser with empty storage, and a
  numbered call of \<open>emit\<close>: call \<open>n\<close> draws the id made of \<open>n\<close> letters.
\<close>

definition offline_options :: options where
  "offline_options = \<lparr> opt_wsUrl = None, opt_offline = None \<rparr>"

definition plain_browser :: "unit browser" where
  "plain_browser = \<lparr> env_connects = True, env_localStorage = Map.empty, env_mcpAvailable = False, env_world = () \<rparr>"

definition numbered :: "nat \<Rightarrow> unit action" where
  "numbered n = Emit ''note'' [] no_opts (replicate n CHR ''i'') ''2025-01-01T00:00:00.000Z''"

text \<open>A payload whose summary has 60 characters, and a brief of 61 characters.\<close>

definition long_summary :: payload where
  "long_summary = [(''summary'', JStr (replicate 60 CHR ''x''))]"

definition long_brief :: emit_options where
  "long_brief = \<lparr> opt_brief = Some (replicate 61 CHR ''y''), opt_references = None, opt_agent = None \<rparr>"

text \<open>
  Two listeners for the event type \<open>ping\<close>, whose state is a counter: the one
  of priority 5 throws, the one of priority 0 counts.
\<close>

definition counting_browser :: "nat browser" where
  "counting_browser = \<lparr> env_connects = True, env_localStorage = Map.empty, env_mcpAvailable = False, env_world = 0 \<rparr>"

definition failing :: "event \<Rightarrow> nat \<Rightarrow> nat outcome" where
  "failing e w = Throws w"

definition counting :: "event \<Rightarrow> nat \<Rightarrow> nat outcome" where
  "counting e w = Returns (Suc w)"

definition two_listeners :: "nat PDLFramework" where
  "two_listeners =
     registerHook ''ping'' (Custom counting) no_options
       (registerHook ''ping'' (Custom failing) \<lparr> opt_priority = Some 5, opt_async = Some False \<rparr>
         (constructor offline_options counting_browser))"

definition ping :: event where
  "ping = \<lparr> ev_id = ''e1'', ev_type = ''ping'', ev_timestamp = ''t1'', ev_phase = JStr ''discovery'',
             ev_data = [], ev_brief = ''ping'', ev_references = [], ev_agent = ''system'' \<rparr>"

text \<open>
  Three registrations for \<open>ping\<close>, of priorities 1, 5 and 1: a listener that
  doubles the counter, one that adds 3 to it, and the one that adds 1. From 0 the
  counter reaches 7 only if they are called in the order add 3, double, add 1.
\<close>

definition doubling :: "event \<Rightarrow> nat \<Rightarrow> nat outcome" where
  "doubling e w = Returns (2 * w)"

definition adding3 :: "event \<Rightarrow> nat \<Rightarrow> nat outcome" where
  "adding3 e w = Returns (w + 3)"

definition three_registrations :: "nat action list" where
  "three_registrations =
     [RegisterHook ''ping'' doubling \<lparr> opt_priority = Some 1, opt_async = None \<rparr>,
      RegisterHook ''ping'' adding3 \<lparr> opt_priority = Some 5, opt_async = None \<rparr>,
      RegisterHook ''ping'' counting \<lparr> opt_priority = Some 1, opt_async = None \<rparr>]"

text \<open>An instance with an endpoint configured, and a call of \<open>emit\<close> made after the socket opened.\<close>

definition online_options :: options where
  "online_options = \<lparr> opt_wsUrl = Some ''ws://localhost:8080'', opt_offline = None \<rparr>"

definition later :: "unit action" where
  "later = Emit ''note'' [] no_opts ''later'' ''2025-01-01T00:00:01.000Z''"




definition as_lead :: payload where
  "as_lead = [(''agent'', JStr ''dev''), (''role'', JStr ''lead'')]"

definition as_reviewer :: payload where
  "as_reviewer = [(''agent'', JStr ''dev''), (''role'', JStr ''reviewer'')]"

section \<open>Phase transitions on the database\<close>

subsection \<open>The statements\<close>


lemma logEvent_phases: "logEvent uuid now params d = Inr (d', row) \<Longrightarrow> phases d' = phases d"
  by (auto simp: logEvent_def Let_def split: if_splits)

lemma logEvent_accept:
  "insert_accepted uuid args d \<Longrightarrow>
     \<exists>row. logEvent uuid now (transition_event args) d = Inr (d\<lparr>events := events d @ [row]\<rparr>, row)
        \<and> er_id row = uuid \<and> er_type row = ''phase_transition''"
  by (auto simp: logEvent_def transition_event_def insert_accepted_def Let_def js_or_null_def)

lemma logEvent_reject:
  "\<not> insert_accepted uuid args d \<Longrightarrow> logEvent uuid now (transition_event args) d = Inl SQLITE_CONSTRAINT"
  by (auto simp: logEvent_def transition_event_def insert_accepted_def Let_def js_or_null_def)

lemma transition_phases:
  "phases (fst (transition_phase t1 t2 t3 uuid args d)) = map (relabel t1 t2 args) (phases d)"
  by (auto simp: transition_phase_def Let_def oldPhaseSQL_def newPhaseSQL_def relabel_def
      split: sum.splits dest: logEvent_phases)







lemmas db_simps = apply_ops_def createPhase_def transition_phase_def oldPhaseSQL_def newPhaseSQL_def
  logEvent_def transition_event_def js_or_def js_or_null_def substring0_def active_phases_def Let_def

lemmas P_simps = P_empty_def three_phases_def new_phase_def move_def

lemma P_phases_eq:
  "P_phases =
     \<lparr> projects = [''P''], agents = [''A''],
       phases = [\<lparr> ph_id = ''1'', ph_project_id = ''P'', ph_name = ''discovery'', ph_display_name = ''discovery'',
                   ph_start_date = Some ''2025-01-01'', ph_end_date = None, ph_planned_end_date = Some ''2025-02-01'',
                   ph_status = ''active'' \<rparr>,
                 \<lparr> ph_id = ''2'', ph_project_id = ''P'', ph_name = ''planning'', ph_display_name = ''planning'',
                   ph_start_date = Some ''2025-01-01'', ph_end_date = None, ph_planned_end_date = Some ''2025-02-01'',
                   ph_status = ''pending'' \<rparr>,
                 \<lparr> ph_id = ''3'', ph_project_id = ''P'', ph_name = ''development'', ph_display_name = ''development'',
                   ph_start_date = Some ''2025-01-01'', ph_end_date = None, ph_planned_end_date = Some ''2025-02-01'',
                   ph_status = ''pending'' \<rparr>],
       events = [] \<rparr>"
  by (simp add: P_phases_def db_simps P_simps)

subsection \<open>At most one active phase\<close>




subsection \<open>No validation of the arguments\<close>

text \<open>
  Claim C2, as amended. The handler never compares \<open>fromPhase\<close> with the active
  phase and never looks \<open>toPhase\<close> up: for every database and all arguments it
  answers success and appends one \<open>phase_transition\<close> event exactly when SQLite
  accepts the event row (fresh id, known project, \<open>triggeredBy\<close> empty or a
  registered agent), and answers \<open>InternalError\<close> without an event otherwise. In
  both cases the two updates have been applied: every phase of the project named
  \<open>toPhase\<close> is active with a new start date, every phase named \<open>fromPhase\<close>
  (and not \<open>toPhase\<close>) is completed with a new end date, and the rows of other
  names or other projects are untouched.
\<close>

theorem transition_phase_unvalidated:
  "snd (transition_phase t1 t2 t3 uuid args d)
     = (if insert_accepted uuid args d then Inr (Success (fromPhase args) (toPhase args))
        else Inl (InternalError SQLITE_CONSTRAINT))
   \<and> (if insert_accepted uuid args d
       then \<exists>row. events (fst (transition_phase t1 t2 t3 uuid args d)) = events d @ [row]
                \<and> er_id row = uuid \<and> er_type row = ''phase_transition''
       else events (fst (transition_phase t1 t2 t3 uuid args d)) = events d)
   \<and> phases (fst (transition_phase t1 t2 t3 uuid args d)) = map (relabel t1 t2 args) (phases d)
   \<and> (\<forall>r. ph_project_id r \<noteq> projectId args \<or> (ph_name r \<noteq> fromPhase args \<and> ph_name r \<noteq> toPhase args)
          \<longrightarrow> relabel t1 t2 args r = r)
   \<and> (\<forall>r. ph_project_id r = projectId args \<and> ph_name r = toPhase args
          \<longrightarrow> ph_status (relabel t1 t2 args r) = ''active'' \<and> ph_start_date (relabel t1 t2 args r) = Some t2)
   \<and> (\<forall>r. ph_project_id r = projectId args \<and> ph_name r = fromPhase args \<and> fromPhase args \<noteq> toPhase args
          \<longrightarrow> ph_status (relabel t1 t2 args r) = ''completed'' \<and> ph_end_date (relabel t1 t2 args r) = Some t1)"
proof -
  let ?d2 = "newPhaseSQL t2 (projectId args) (toPhase args) (oldPhaseSQL t1 (projectId args) (fromPhase args) d)"
  have acc: "insert_accepted uuid args ?d2 \<longleftrightarrow> insert_accepted uuid args d"
    by (simp add: insert_accepted_def oldPhaseSQL_def newPhaseSQL_def)
  have ev: "events ?d2 = events d"
    by (simp add: oldPhaseSQL_def newPhaseSQL_def)
  have res: "snd (transition_phase t1 t2 t3 uuid args d)
     = (if insert_accepted uuid args d then Inr (Success (fromPhase args) (toPhase args))
        else Inl (InternalError SQLITE_CONSTRAINT))"
  proof (cases "insert_accepted uuid args d")
    case True
    then show ?thesis
      using logEvent_accept[of uuid args ?d2 t3] acc by (auto simp: transition_phase_def Let_def)
  next
    case False
    then show ?thesis
      using logEvent_reject[of uuid args ?d2 t3] acc by (simp add: transition_phase_def Let_def)
  qed
  have evs: "if insert_accepted uuid args d
       then \<exists>row. events (fst (transition_phase t1 t2 t3 uuid args d)) = events d @ [row]
                \<and> er_id row = uuid \<and> er_type row = ''phase_transition''
       else events (fst (transition_phase t1 t2 t3 uuid args d)) = events d"
  proof (cases "insert_accepted uuid args d")
    case True
    then show ?thesis
      using logEvent_accept[of uuid args ?d2 t3] acc ev by (auto simp: transition_phase_def Let_def)
  next
    case False
    then show ?thesis
      using logEvent_reject[of uuid args ?d2 t3] acc ev by (simp add: transition_phase_def Let_def)
  qed
  have rl: "\<forall>r. ph_project_id r \<noteq> projectId args \<or> (ph_name r \<noteq> fromPhase args \<and> ph_name r \<noteq> toPhase args)
          \<longrightarrow> relabel t1 t2 args r = r"
    "\<forall>r. ph_project_id r = projectId args \<and> ph_name r = toPhase args
          \<longrightarrow> ph_status (relabel t1 t2 args r) = ''active'' \<and> ph_start_date (relabel t1 t2 args r) = Some t2"
    "\<forall>r. ph_project_id r = projectId args \<and> ph_name r = fromPhase args \<and> fromPhase args \<noteq> toPhase args
          \<longrightarrow> ph_status (relabel t1 t2 args r) = ''completed'' \<and> ph_end_date (relabel t1 t2 args r) = Some t1"
    by (auto simp: relabel_def Let_def)
  from res evs transition_phases[of t1 t2 t3 uuid args d] rl show ?thesis by blast
qed

text \<open>
  Both answers at concrete inputs: the request of the counterexample below is
  answered with success, and the same request on a database without agent \<open>A\<close>
  with \<open>InternalError\<close>.
\<close>

theorem transition_phase_unvalidated_witness:
  "insert_accepted ''e1'' (move ''planning'' ''launch'') P_phases
   \<and> snd (transition_phase ''t1'' ''t2'' ''t3'' ''e1'' (move ''planning'' ''launch'') P_phases)
       = Inr (Success ''planning'' ''launch'')
   \<and> \<not> insert_accepted ''e1'' (move ''planning'' ''launch'') (P_phases\<lparr>agents := []\<rparr>)
   \<and> snd (transition_phase ''t1'' ''t2'' ''t3'' ''e1'' (move ''planning'' ''launch'') (P_phases\<lparr>agents := []\<rparr>))
       = Inl (InternalError SQLITE_CONSTRAINT)"
proof -
  have a: "insert_accepted ''e1'' (move ''planning'' ''launch'') P_phases"
    and b: "\<not> insert_accepted ''e1'' (move ''planning'' ''launch'') (P_phases\<lparr>agents := []\<rparr>)"
    by (simp_all add: insert_accepted_def P_phases_eq move_def)
  have m: "fromPhase (move ''planning'' ''launch'') = ''planning''" "toPhase (move ''planning'' ''launch'') = ''launch''"
    by (simp_all add: move_def)
  show ?thesis
    using a b
      transition_phase_unvalidated[of "''t1''" "''t2''" "''t3''" "''e1''" "move ''planning'' ''launch''" P_phases]
      transition_phase_unvalidated[of "''t1''" "''t2''" "''t3''" "''e1''" "move ''planning'' ''launch''" "P_phases\<lparr>agents := []\<rparr>"]
    unfolding m by simp
qed

text \<open>
  Claim C2 as stated fails: the current phase of \<open>P\<close> is \<open>discovery\<close> and
  \<open>P\<close> has no phase \<open>launch\<close>, yet the transition from \<open>planning\<close> to
  \<open>launch\<close> is answered with success, logs a \<open>phase_transition\<close> event and
  marks \<open>planning\<close> completed with an end date.
\<close>

theorem invalid_transition_succeeds:
  "map_option ph_name (getCurrentPhase ''P'' P_phases) = Some ''discovery''
   \<and> ''launch'' \<notin> set (map ph_name (phases P_phases))
   \<and> snd (transition_phase ''t1'' ''t2'' ''t3'' ''e1'' (move ''planning'' ''launch'') P_phases)
       = Inr (Success ''planning'' ''launch'')
   \<and> map er_type (events (fst (transition_phase ''t1'' ''t2'' ''t3'' ''e1'' (move ''planning'' ''launch'') P_phases)))
       = [''phase_transition'']
   \<and> map ph_status (phases P_phases) = [''active'', ''pending'', ''pending'']
   \<and> map ph_status (phases (fst (transition_phase ''t1'' ''t2'' ''t3'' ''e1'' (move ''planning'' ''launch'') P_phases)))
       = [''active'', ''completed'', ''pending'']
   \<and> map ph_end_date (phases (fst (transition_phase ''t1'' ''t2'' ''t3'' ''e1'' (move ''planning'' ''launch'') P_phases)))
       = [None, Some ''t1'', None]"
  by (simp add: db_simps getCurrentPhase_def P_phases_eq move_def)

subsection \<open>Requests on the same project at the same time\<close>



text \<open>A request that runs alone goes through the handler as written.\<close>

lemma run_alone:
  "(store (run calls (start d) [(i, t1), (i, t2), (i, t3)]), pcs (run calls (start d) [(i, t1), (i, t2), (i, t3)]) i)
     = (case transition_phase t1 t2 t3 (fst (calls i)) (snd (calls i)) d of (d', res) \<Rightarrow> (d', Returned res))"
proof (cases "logEvent (fst (calls i)) t3 (transition_event (snd (calls i)))
     (newPhaseSQL t2 (projectId (snd (calls i))) (toPhase (snd (calls i)))
       (oldPhaseSQL t1 (projectId (snd (calls i))) (fromPhase (snd (calls i))) d))")
  case (Inl e)
  then show ?thesis
    by (simp add: run_def step_def start_def transition_phase_def Let_def)
next
  case (Inr p)
  then show ?thesis
    by (cases p) (simp add: run_def step_def start_def transition_phase_def Let_def)
qed











section \<open>The event bus\<close>

subsection \<open>What each method leaves alone\<close>

lemma lastn_append: "lastn n (lastn n xs @ ys) = lastn n (xs @ ys)"
proof (cases "length xs \<le> n")
  case True
  then show ?thesis by (simp add: lastn_def)
next
  case False
  then show ?thesis by (simp add: lastn_def add.commute)
qed

lemma lastn_short: "length xs \<le> n \<Longrightarrow> lastn n xs = xs"
  by (simp add: lastn_def)

lemma length_lastn: "length (lastn n xs) = min n (length xs)"
  by (simp add: lastn_def)

lemma addToHistory_history:
  assumes "0 < maxEventHistory fw"
  shows "eventHistory (addToHistory e fw) = lastn (nat (maxEventHistory fw)) (eventHistory fw @ [e])"
proof -
  have "nat (1 + int (length (eventHistory fw)) - maxEventHistory fw)
      = Suc (length (eventHistory fw)) - nat (maxEventHistory fw)"
    using assms by arith
  then show ?thesis
    using assms by (auto simp: addToHistory_def js_slice_def lastn_def Let_def max_def)
qed

lemma addToHistory_frame:
  "maxEventHistory (addToHistory e fw) = maxEventHistory fw"
  "hooks (addToHistory e fw) = hooks fw"
  "currentPhase (addToHistory e fw) = currentPhase fw"
  "activeAgents (addToHistory e fw) = activeAgents fw"
  "offlineMode (addToHistory e fw) = offlineMode fw"
  "ws (addToHistory e fw) = ws fw"
  "sent (addToHistory e fw) = sent fw"
  "localStorage (addToHistory e fw) = localStorage fw"
  "console (addToHistory e fw) = console fw"
  by (simp_all add: addToHistory_def Let_def)

lemma call_fn_frame:
  assumes "call_fn h e fw = Returns fw' \<or> call_fn h e fw = Throws fw'"
  shows "eventHistory fw' = eventHistory fw \<and> maxEventHistory fw' = maxEventHistory fw
       \<and> hooks fw' = hooks fw \<and> offlineMode fw' = offlineMode fw \<and> ws fw' = ws fw
       \<and> sent fw' = sent fw \<and> localStorage fw' = localStorage fw"
  using assms by (cases h) (auto simp: writeDevelopmentNote_def Let_def split: outcome.splits if_splits)

lemma fst_forEach_Cons:
  "fst (forEach (h # hs) t e fw) =
     (case call_fn (fn h) e fw of
        Returns fw1 \<Rightarrow> fst (forEach hs t e fw1)
      | Throws fw1 \<Rightarrow>
          fst (forEach hs t e (fw1\<lparr>console := console fw1 @ [(ERROR, ''Hook error for '' @ t @ '':'')]\<rparr>)))"
  by (simp split: outcome.splits prod.splits)

lemma forEach_frame:
  "eventHistory (fst (forEach hs t e fw)) = eventHistory fw
   \<and> maxEventHistory (fst (forEach hs t e fw)) = maxEventHistory fw
   \<and> hooks (fst (forEach hs t e fw)) = hooks fw
   \<and> offlineMode (fst (forEach hs t e fw)) = offlineMode fw
   \<and> ws (fst (forEach hs t e fw)) = ws fw
   \<and> sent (fst (forEach hs t e fw)) = sent fw
   \<and> localStorage (fst (forEach hs t e fw)) = localStorage fw"
proof (induction hs arbitrary: fw)
  case Nil
  then show ?case by simp
next
  case (Cons h hs)
  show ?case
  proof (cases "call_fn (fn h) e fw")
    case (Returns fw1)
    then show ?thesis
      using Cons.IH[of fw1] call_fn_frame[of "fn h" e fw fw1] by (simp only: fst_forEach_Cons) simp
  next
    case (Throws fw1)
    then show ?thesis
      using Cons.IH[of "fw1\<lparr>console := console fw1 @ [(ERROR, ''Hook error for '' @ t @ '':'')]\<rparr>"]
        call_fn_frame[of "fn h" e fw fw1] by (simp only: fst_forEach_Cons) simp
  qed
qed

lemmas executeHooks_frame = forEach_frame[of "hooks_for fw t" t e fw, folded executeHooks_def] for fw t e

lemma sendToServer_frame:
  "eventHistory (sendToServer e fw) = eventHistory fw"
  "maxEventHistory (sendToServer e fw) = maxEventHistory fw"
  "hooks (sendToServer e fw) = hooks fw"
  "currentPhase (sendToServer e fw) = currentPhase fw"
  "activeAgents (sendToServer e fw) = activeAgents fw"
  "offlineMode (sendToServer e fw) = offlineMode fw"
  "ws (sendToServer e fw) = ws fw"
  by (simp_all add: sendToServer_def)

lemma emit_history:
  assumes "0 < maxEventHistory fw"
  shows "eventHistory (fst (emit t d opts eid now fw))
           = lastn (nat (maxEventHistory fw)) (eventHistory fw @ [new_event fw t d opts eid now])"
    and "maxEventHistory (fst (emit t d opts eid now fw)) = maxEventHistory fw"
  using assms
  by (simp_all add: emit_def Let_def sendToServer_frame executeHooks_frame addToHistory_history addToHistory_frame)

lemma perform_history:
  assumes "0 < maxEventHistory fw" and "int (length (eventHistory fw)) \<le> maxEventHistory fw"
  shows "eventHistory (perform fw a)
           = lastn (nat (maxEventHistory fw)) (eventHistory fw @ map snd (arrival fw a))"
    and "maxEventHistory (perform fw a) = maxEventHistory fw"
proof -
  have short: "lastn (nat (maxEventHistory fw)) (eventHistory fw) = eventHistory fw"
    using assms by (intro lastn_short) simp
  show "eventHistory (perform fw a)
           = lastn (nat (maxEventHistory fw)) (eventHistory fw @ map snd (arrival fw a))"
    using assms(1) short
    by (cases a)
      (simp_all add: emit_history onConnectionOpen_def handleIncomingEvent_def executeHooks_frame
        addToHistory_history addToHistory_frame registerHook_def initWebSocket_def Let_def new_event_def)
  show "maxEventHistory (perform fw a) = maxEventHistory fw"
    using assms(1)
    by (cases a)
      (simp_all add: emit_history onConnectionOpen_def handleIncomingEvent_def executeHooks_frame
        addToHistory_frame registerHook_def initWebSocket_def Let_def)
qed

lemma performs_history:
  assumes "0 < maxEventHistory fw" and "int (length (eventHistory fw)) \<le> maxEventHistory fw"
  shows "eventHistory (performs fw acts)
           = lastn (nat (maxEventHistory fw)) (eventHistory fw @ map snd (arrivals fw acts))
         \<and> maxEventHistory (performs fw acts) = maxEventHistory fw"
  using assms unfolding performs_def
proof (induction acts arbitrary: fw)
  case Nil
  then show ?case by (simp add: lastn_short)
next
  case (Cons a acts)
  note step = perform_history[OF Cons.prems, of a]
  have len: "int (length (eventHistory (perform fw a))) \<le> maxEventHistory (perform fw a)"
    using Cons.prems(1) by (simp add: step length_lastn)
  have pos: "0 < maxEventHistory (perform fw a)" using Cons.prems(1) step by simp
  from Cons.IH[OF pos len] show ?case
    by (simp add: step lastn_append)
qed


lemma registerHook_frame:
  "eventHistory (registerHook t h ho fw) = eventHistory fw"
  "maxEventHistory (registerHook t h ho fw) = maxEventHistory fw"
  "currentPhase (registerHook t h ho fw) = currentPhase fw"
  "activeAgents (registerHook t h ho fw) = activeAgents fw"
  "offlineMode (registerHook t h ho fw) = offlineMode fw"
  "ws (registerHook t h ho fw) = ws fw"
  "sent (registerHook t h ho fw) = sent fw"
  "localStorage (registerHook t h ho fw) = localStorage fw"
  by (simp_all add: registerHook_def Let_def)

lemma constructor_fields:
  "eventHistory (constructor opts env) = []"
  "maxEventHistory (constructor opts env) = 1000"
  "currentPhase (constructor opts env) = JStr ''discovery''"
  "activeAgents (constructor opts env) = []"
  "sent (constructor opts env) = []"
  "localStorage (constructor opts env) = env_localStorage env"
  "offlineMode (constructor opts env) \<longleftrightarrow> opt_offline opts \<noteq> Some False \<and> js_or_null (opt_wsUrl opts) = None"
  by (simp_all add: constructor_def registerDefaultHooks_def registerHook_frame initWebSocket_def Let_def)

lemma emits_only:
  "list_all is_emit acts \<Longrightarrow>
     map snd (arrivals fw acts) = emitted fw acts \<and> map ev_id (emitted fw acts) = map emit_id acts"
proof (induction acts arbitrary: fw)
  case Nil
  then show ?case by (simp add: emitted_def)
next
  case (Cons a acts)
  then obtain t d opts eid now where a: "a = Emit t d opts eid now"
    by (cases a) auto
  from Cons.IH[of "perform fw a"] Cons.prems show ?case
    by (simp add: a emitted_def new_event_def)
qed

subsection \<open>The history buffer\<close>

text \<open>
  Claim C4. Whenever the cap \<open>maxEventHistory\<close> is positive and the history is
  within it, both stay so along every run (calls of \<open>emit\<close> and whatever else
  happens to the instance), and the history is the last \<open>cap\<close> of the events
  that arrived, oldest first: eviction is first in, first out. The constructor sets
  the cap to 1000 and starts with an empty history; after 1200 calls of \<open>emit\<close>
  on a new instance the history has 1000 events, and its first one is the event of
  the 201st call (index 200), which carries the id that this call drew.
\<close>

theorem history_bounded_fifo:
  "(0 < maxEventHistory fw \<and> int (length (eventHistory fw)) \<le> maxEventHistory fw \<longrightarrow>
      int (length (eventHistory (performs fw acts))) \<le> maxEventHistory (performs fw acts)
      \<and> maxEventHistory (performs fw acts) = maxEventHistory fw
      \<and> eventHistory (performs fw acts)
          = lastn (nat (maxEventHistory fw)) (eventHistory fw @ map snd (arrivals fw acts)))
   \<and> maxEventHistory (constructor opts env) = 1000
   \<and> eventHistory (constructor opts env) = []
   \<and> (list_all is_emit calls \<and> length calls = 1200 \<longrightarrow>
        length (eventHistory (performs (constructor opts env) calls)) = 1000
        \<and> eventHistory (performs (constructor opts env) calls) = drop 200 (emitted (constructor opts env) calls)
        \<and> eventHistory (performs (constructor opts env) calls) ! 0 = emitted (constructor opts env) calls ! 200
        \<and> ev_id (emitted (constructor opts env) calls ! 200) = emit_id (calls ! 200))"
proof -
  have general: "int (length (eventHistory (performs fw acts))) \<le> maxEventHistory (performs fw acts)
      \<and> maxEventHistory (performs fw acts) = maxEventHistory fw
      \<and> eventHistory (performs fw acts)
          = lastn (nat (maxEventHistory fw)) (eventHistory fw @ map snd (arrivals fw acts))"
    if "0 < maxEventHistory fw" "int (length (eventHistory fw)) \<le> maxEventHistory fw"
    using performs_history[OF that, of acts] that(1) by (simp add: length_lastn)
  have scenario: "length (eventHistory (performs (constructor opts env) calls)) = 1000
        \<and> eventHistory (performs (constructor opts env) calls) = drop 200 (emitted (constructor opts env) calls)
        \<and> eventHistory (performs (constructor opts env) calls) ! 0 = emitted (constructor opts env) calls ! 200
        \<and> ev_id (emitted (constructor opts env) calls ! 200) = emit_id (calls ! 200)"
    if e: "list_all is_emit calls" and n: "length calls = 1200"
  proof -
    let ?fw = "constructor opts env"
    have h: "eventHistory (performs ?fw calls) = lastn 1000 (map snd (arrivals ?fw calls))"
      using performs_history[of ?fw calls] by (simp add: constructor_fields)
    note eo = emits_only[OF e, of ?fw]
    have len: "length (emitted ?fw calls) = 1200"
      using eo n by (metis length_map)
    have d: "eventHistory (performs ?fw calls) = drop 200 (emitted ?fw calls)"
      using h eo len by (simp add: lastn_def)
    have "ev_id (emitted ?fw calls ! 200) = map ev_id (emitted ?fw calls) ! 200"
      using len by simp
    also have "\<dots> = emit_id (calls ! 200)"
      using eo n by simp
    finally show ?thesis using d len by simp
  qed
  from general scenario constructor_fields(1,2)[of opts env] show ?thesis
    by blast
qed

text \<open>The 1200 numbered calls on the instance without options.\<close>

theorem history_bounded_fifo_witness:
  "0 < maxEventHistory (constructor offline_options plain_browser)
   \<and> int (length (eventHistory (constructor offline_options plain_browser)))
        \<le> maxEventHistory (constructor offline_options plain_browser)
   \<and> list_all is_emit (map numbered [0..<1200]) \<and> length (map numbered [0..<1200]) = 1200
   \<and> length (eventHistory (performs (constructor offline_options plain_browser) (map numbered [0..<1200]))) = 1000
   \<and> ev_id (eventHistory (performs (constructor offline_options plain_browser) (map numbered [0..<1200])) ! 0)
        = replicate 200 CHR ''i''"
proof -
  let ?fw = "constructor offline_options plain_browser" and ?calls = "map numbered [0..<1200]"
  have a: "0 < maxEventHistory ?fw" "int (length (eventHistory ?fw)) \<le> maxEventHistory ?fw"
    by (simp_all add: constructor_fields)
  have b: "list_all is_emit ?calls" "length ?calls = 1200"
    by (simp_all add: list_all_iff numbered_def)
  have c: "emit_id (?calls ! 200) = replicate 200 CHR ''i''"
    by (simp add: numbered_def)
  from history_bounded_fifo[where fw = ?fw and acts = ?calls and calls = ?calls
      and opts = offline_options and env = plain_browser] a b
  have l: "length (eventHistory (performs ?fw ?calls)) = 1000"
    and f: "eventHistory (performs ?fw ?calls) ! 0 = emitted ?fw ?calls ! 200"
    and i: "ev_id (emitted ?fw ?calls ! 200) = emit_id (?calls ! 200)"
    by blast+
  have "ev_id (eventHistory (performs ?fw ?calls) ! 0) = replicate 200 CHR ''i''"
    unfolding f i c ..
  with a b l show ?thesis by blast
qed

subsection \<open>The brief\<close>

lemma new_event_brief:
  "ev_brief (new_event fw t d opts eid now) = js_or (opt_brief opts) (generateBrief t d)"
  by (simp add: new_event_def)

text \<open>
  The sibling path \<open>logEvent\<close> of the database layer cuts every brief to 60
  characters.
\<close>

lemma logEvent_brief_cut:
  "logEvent uuid now params d = Inr (d', row) \<Longrightarrow>
     er_brief row = take 60 (ep_brief params) \<and> length (er_brief row) \<le> 60"
  by (auto simp: logEvent_def Let_def substring0_def split: if_splits)

text \<open>
  Claim C5 at its failing inputs. On a new instance, \<open>emit\<close> of type
  \<open>discovery\<close> with a summary of 60 characters and no brief stores an event whose
  synthesized brief has 67 characters, and \<open>emit\<close> with a brief of 61 characters
  stores it uncut.
\<close>

theorem emit_brief_over_60:
  "length (ev_brief (last (eventHistory (fst (emit ''discovery'' long_summary no_opts ''e1'' ''t1''
        (constructor offline_options plain_browser)))))) = 67
   \<and> length (ev_brief (last (eventHistory (fst (emit ''discovery'' [] long_brief ''e1'' ''t1''
        (constructor offline_options plain_browser)))))) = 61"
proof -
  let ?fw = "constructor offline_options plain_browser :: unit PDLFramework"
  have h: "eventHistory (fst (emit t d opts eid now ?fw)) = [new_event ?fw t d opts eid now]" for t d opts eid now
    using emit_history(1)[of ?fw t d opts eid now] by (simp add: constructor_fields lastn_def)
  have 1: "length (ev_brief (new_event ?fw ''discovery'' long_summary no_opts ''e1'' ''t1'')) = 67"
    by (simp add: new_event_brief no_opts_def js_or_def generateBrief_def field_def long_summary_def)
  have 2: "length (ev_brief (new_event ?fw ''discovery'' [] long_brief ''e1'' ''t1'')) = 61"
    by (simp add: new_event_brief long_brief_def js_or_def)
  show ?thesis using 1 2 by (simp add: h)
qed

subsection \<open>Dispatch\<close>

lemma forEach_Cons:
  "forEach (h # hs) t e fw =
     (case call_fn (fn h) e fw of
        Returns fw1 \<Rightarrow> (fst (forEach hs t e fw1), (h, False) # snd (forEach hs t e fw1))
      | Throws fw1 \<Rightarrow>
          (fst (forEach hs t e (fw1\<lparr>console := console fw1 @ [hook_error t]\<rparr>)),
           (h, True) # snd (forEach hs t e (fw1\<lparr>console := console fw1 @ [hook_error t]\<rparr>))))"
  by (simp add: hook_error_def split: outcome.splits prod.splits)

lemma forEach_called: "map fst (snd (forEach hs t e fw)) = hs"
  by (induction hs arbitrary: fw) (simp_all add: forEach_Cons del: forEach.simps(2) split: outcome.splits)

lemma call_fn_errors:
  assumes "call_fn h e fw = Returns fw' \<or> call_fn h e fw = Throws fw'"
  shows "errors (console fw') = errors (console fw)"
  using assms
  by (cases h) (auto simp: errors_def writeDevelopmentNote_def Let_def split: outcome.splits if_splits)

lemma forEach_errors:
  "errors (console (fst (forEach hs t e fw)))
     = errors (console fw) @ replicate (length (filter snd (snd (forEach hs t e fw)))) (hook_error t)"
proof (induction hs arbitrary: fw)
  case Nil
  then show ?case by simp
next
  case (Cons h hs)
  show ?case
  proof (cases "call_fn (fn h) e fw")
    case (Returns fw1)
    then show ?thesis
      using Cons.IH[of fw1] call_fn_errors[of "fn h" e fw fw1] by (simp add: forEach_Cons del: forEach.simps(2))
  next
    case (Throws fw1)
    have "errors (console (fw1\<lparr>console := console fw1 @ [hook_error t]\<rparr>)) = errors (console fw) @ [hook_error t]"
      using call_fn_errors[of "fn h" e fw fw1] Throws by (simp add: errors_def hook_error_def)
    then show ?thesis
      using Cons.IH[of "fw1\<lparr>console := console fw1 @ [hook_error t]\<rparr>"] Throws
      by (simp add: forEach_Cons replicate_app_Cons_same del: forEach.simps(2))
  qed
qed

lemma forEach_append:
  "forEach (hs1 @ hs2) t e fw =
     (fst (forEach hs2 t e (fst (forEach hs1 t e fw))),
      snd (forEach hs1 t e fw) @ snd (forEach hs2 t e (fst (forEach hs1 t e fw))))"
  by (induction hs1 arbitrary: fw) (simp_all add: forEach_Cons del: forEach.simps(2) split: outcome.splits)

text \<open>
  Claim C6. Dispatch calls every handler bound to the event type, in the order of
  the list, whatever the handlers do, and the console gains one error line for each
  call that threw. In particular, when a handler throws (its \<open>async\<close> flag unset
  or set), the call is recorded as thrown, the error line is on the console, and
  dispatch goes on with the handlers after it, from the state that the throwing
  handler left.
\<close>

theorem dispatch_completes:
  "map fst (snd (executeHooks t e fw)) = hooks_for fw t
   \<and> errors (console (fst (executeHooks t e fw)))
       = errors (console fw) @ replicate (length (filter snd (snd (executeHooks t e fw)))) (hook_error t)
   \<and> (hooks_for fw t = before @ h # after \<and> call_fn (fn h) e (fst (forEach before t e fw)) = Throws fw' \<longrightarrow>
        snd (executeHooks t e fw) ! length before = (h, True)
        \<and> hook_error t \<in> set (console (fst (executeHooks t e fw)))
        \<and> map fst (drop (Suc (length before)) (snd (executeHooks t e fw))) = after
        \<and> fst (executeHooks t e fw) = fst (forEach after t e (fw'\<lparr>console := console fw' @ [hook_error t]\<rparr>)))"
proof -
  have called: "map fst (snd (executeHooks t e fw)) = hooks_for fw t"
    by (simp add: executeHooks_def forEach_called)
  have errs: "errors (console (fst (executeHooks t e fw)))
       = errors (console fw) @ replicate (length (filter snd (snd (executeHooks t e fw)))) (hook_error t)"
    by (simp add: executeHooks_def forEach_errors)
  have thrown: "snd (executeHooks t e fw) ! length before = (h, True)
        \<and> hook_error t \<in> set (console (fst (executeHooks t e fw)))
        \<and> map fst (drop (Suc (length before)) (snd (executeHooks t e fw))) = after
        \<and> fst (executeHooks t e fw) = fst (forEach after t e (fw'\<lparr>console := console fw' @ [hook_error t]\<rparr>))"
    if hs: "hooks_for fw t = before @ h # after"
      and th: "call_fn (fn h) e (fst (forEach before t e fw)) = Throws fw'"
  proof -
    let ?fw1 = "fst (forEach before t e fw)"
    let ?fw2 = "fw'\<lparr>console := console fw' @ [hook_error t]\<rparr>"
    have run: "executeHooks t e fw
        = (fst (forEach after t e ?fw2), snd (forEach before t e fw) @ (h, True) # snd (forEach after t e ?fw2))"
      unfolding executeHooks_def hs forEach_append[of before "h # after"] by (simp add: forEach_Cons th del: forEach.simps(2))
    have len: "length (snd (forEach before t e fw)) = length before"
      using forEach_called[of before t e fw] by (metis length_map)
    have at: "snd (executeHooks t e fw) ! length before = (h, True)"
      unfolding run using len by (simp add: nth_append)
    have rest: "map fst (drop (Suc (length before)) (snd (executeHooks t e fw))) = after"
      unfolding run using len by (simp add: forEach_called)
    have "hook_error t \<in> set (errors (console (fst (executeHooks t e fw))))"
      unfolding run fst_conv forEach_errors[of after t e ?fw2] by (simp add: errors_def hook_error_def)
    then have "hook_error t \<in> set (console (fst (executeHooks t e fw)))"
      by (simp add: errors_def)
    with at rest run show ?thesis by simp
  qed
  from called errs thrown show ?thesis by blast
qed


text \<open>
  The two listeners: the first call throws, and the counter of the second one has
  moved all the same.
\<close>

lemma two_listeners_hooks:
  "hooks_for two_listeners ''ping''
     = [\<lparr> fn = Custom failing, priority = 5, async = False \<rparr>, \<lparr> fn = Custom counting, priority = 0, async = False \<rparr>]"
  by (simp add: two_listeners_def registerHook_def hooks_for_def constructor_def registerDefaultHooks_def
      no_options_def sort_by_priority_def offline_options_def js_or_null_def Let_def)

theorem dispatch_completes_witness:
  "hooks_for two_listeners ''ping''
     = [] @ \<lparr> fn = Custom failing, priority = 5, async = False \<rparr> # [\<lparr> fn = Custom counting, priority = 0, async = False \<rparr>]
   \<and> call_fn (fn \<lparr> fn = Custom failing, priority = 5, async = False \<rparr>) ping (fst (forEach [] ''ping'' ping two_listeners))
       = Throws two_listeners
   \<and> world two_listeners = 0
   \<and> world (fst (executeHooks ''ping'' ping two_listeners)) = 1
   \<and> hook_error ''ping'' \<in> set (console (fst (executeHooks ''ping'' ping two_listeners)))"
proof -
  let ?h = "\<lparr> fn = Custom failing, priority = 5, async = False \<rparr>"
  let ?k = "\<lparr> fn = Custom counting, priority = 0, async = False \<rparr>"
  have a: "hooks_for two_listeners ''ping'' = [] @ ?h # [?k]"
    by (simp add: two_listeners_hooks)
  have b: "call_fn (fn ?h) ping (fst (forEach [] ''ping'' ping two_listeners)) = Throws two_listeners"
    by (simp add: failing_def)
  have w: "world two_listeners = 0"
    by (simp add: two_listeners_def registerHook_def constructor_def registerDefaultHooks_def
        counting_browser_def offline_options_def js_or_null_def Let_def)
  from dispatch_completes[where fw = two_listeners and t = "''ping''" and e = ping and before = "[]"
      and h = ?h and after = "[?k]" and fw' = two_listeners] a b
  have l: "hook_error ''ping'' \<in> set (console (fst (executeHooks ''ping'' ping two_listeners)))"
    and r: "fst (executeHooks ''ping'' ping two_listeners)
          = fst (forEach [?k] ''ping'' ping (two_listeners\<lparr>console := console two_listeners @ [hook_error ''ping'']\<rparr>))"
    by blast+
  have "world (fst (executeHooks ''ping'' ping two_listeners)) = 1"
    unfolding r by (simp add: counting_def w)
  with a b w l show ?thesis by blast
qed

subsection \<open>The order of dispatch\<close>

lemma sort_key_append_sorted: "sort_key f (sort_key f xs @ ys) = sort_key f (xs @ ys)"
proof (rule properties_for_sort_key)
  show "mset (sort_key f (xs @ ys)) = mset (sort_key f xs @ ys)" by simp
  show "sorted (map f (sort_key f (xs @ ys)))" by simp
  fix k
  have "filter (\<lambda>x. f x = f k) (sort_key f (xs @ ys)) = filter (\<lambda>x. f x = f k) (sort_key f xs @ ys)"
    by (simp add: sort_key_stable)
  then show "filter (\<lambda>x. f k = f x) (sort_key f (xs @ ys)) = filter (\<lambda>x. f k = f x) (sort_key f xs @ ys)"
    by (simp add: eq_commute[of "f k"])
qed

lemma hooks_for_registerHook:
  "hooks_for (registerHook t' h ho fw) t =
     (if t' = t
      then sort_by_priority (hooks_for fw t @
             [\<lparr> fn = h, priority = (case opt_priority ho of None \<Rightarrow> 0 | Some p \<Rightarrow> p),
                async = (case opt_async ho of None \<Rightarrow> False | Some b \<Rightarrow> b) \<rparr>])
      else hooks_for fw t)"
  by (simp add: registerHook_def hooks_for_def Let_def)

lemma perform_hooks:
  "(\<forall>t. registration t a = []) \<Longrightarrow> hooks (perform fw a) = hooks fw"
proof (cases a)
  case (Emit eventType data options eid now)
  then show ?thesis
    by (simp add: emit_def Let_def sendToServer_frame executeHooks_frame addToHistory_frame)
next
  case (Incoming data)
  then show ?thesis
    by (simp add: handleIncomingEvent_def executeHooks_frame addToHistory_frame)
next
  case (RegisterHook eventType f options)
  assume "\<forall>t. registration t a = []"
  then have "registration eventType a = []" by blast
  then show ?thesis using RegisterHook by simp
next
  case (SocketOpen eid now)
  then show ?thesis
    by (simp add: onConnectionOpen_def emit_def Let_def sendToServer_frame executeHooks_frame addToHistory_frame)
next
  case SocketClose
  then show ?thesis by simp
next
  case (Reconnect connects)
  then show ?thesis by (simp add: initWebSocket_def)
qed

lemma perform_hooks_for:
  "hooks_for (perform fw a) t =
     (if registration t a = [] then hooks_for fw t else sort_by_priority (hooks_for fw t @ registration t a))"
proof (cases a)
  case (RegisterHook eventType f options)
  then show ?thesis by (simp add: hooks_for_registerHook)
next
  case (Emit eventType data options eid now)
  then have "hooks (perform fw a) = hooks fw" by (intro perform_hooks) simp
  then show ?thesis using Emit by (simp add: hooks_for_def)
next
  case (Incoming data)
  then have "hooks (perform fw a) = hooks fw" by (intro perform_hooks) simp
  then show ?thesis using Incoming by (simp add: hooks_for_def)
next
  case (SocketOpen eid now)
  then have "hooks (perform fw a) = hooks fw" by (intro perform_hooks) simp
  then show ?thesis using SocketOpen by (simp add: hooks_for_def)
next
  case SocketClose
  then show ?thesis by (simp add: hooks_for_def)
next
  case (Reconnect connects)
  then show ?thesis by (simp add: hooks_for_def initWebSocket_def)
qed

lemma performs_hooks_for:
  assumes "sort_by_priority (hooks_for fw t) = hooks_for fw t"
  shows "hooks_for (performs fw acts) t = sort_by_priority (registered fw acts t)"
  using assms unfolding performs_def registered_def
proof (induction acts arbitrary: fw)
  case Nil
  then show ?case by simp
next
  case (Cons a acts)
  show ?case
  proof (cases "registration t a = []")
    case True
    then have "hooks_for (perform fw a) t = hooks_for fw t" by (simp add: perform_hooks_for)
    with Cons.IH[of "perform fw a"] Cons.prems True show ?thesis by simp
  next
    case False
    then have h: "hooks_for (perform fw a) t = sort_by_priority (hooks_for fw t @ registration t a)"
      by (simp add: perform_hooks_for)
    have "sort_by_priority (hooks_for (perform fw a) t) = hooks_for (perform fw a) t"
      unfolding h sort_by_priority_def by (simp add: sort_key_id_if_sorted)
    from Cons.IH[OF this] show ?thesis
      unfolding h sort_by_priority_def by (simp add: sort_key_append_sorted)
  qed
qed

lemma constructor_hooks_for:
  "hooks_for (constructor opts env) t =
     (if t = ''phase_transition'' then [\<lparr> fn = SetCurrentPhase, priority = 0, async = False \<rparr>]
      else if t = ''agent_assigned'' then [\<lparr> fn = AddActiveAgent, priority = 0, async = False \<rparr>]
      else if t = ''development_note'' then [\<lparr> fn = WriteDevelopmentNote, priority = 0, async = False \<rparr>]
      else [])"
  by (simp add: constructor_def registerDefaultHooks_def hooks_for_registerHook no_options_def
      sort_by_priority_def Let_def)
    (simp add: hooks_for_def initWebSocket_def)

lemma forEach_foldl: "fst (forEach hs t e fw) = foldl (after_call t e) fw hs"
  by (induction hs arbitrary: fw)
    (simp_all add: forEach_Cons after_call_def del: forEach.simps(2) split: outcome.splits)

lemma registerHook_world: "world (registerHook t h ho fw) = world fw"
  by (simp add: registerHook_def Let_def)

lemma constructor_world: "world (constructor opts env) = env_world env"
  by (simp add: constructor_def registerDefaultHooks_def registerHook_world initWebSocket_def Let_def)

text \<open>
  Claim C7. After the construction and any run, the handlers bound to an event type
  are the registered ones under a stable sort by descending priority: their
  priorities never increase along the list, and the handlers of one priority stand
  in the order of their registration (the handler that the constructor installed
  first among those of priority 0). Dispatch calls them in the order of that list:
  the calls it makes are those of the list, and the state it leaves is the one
  reached by calling the handlers one after the other in that order, each on the
  state that the one before it left.
\<close>

theorem dispatch_order:
  "hooks_for (performs (constructor opts env) acts) t = sort_by_priority (registered (constructor opts env) acts t)
   \<and> sorted_wrt (\<lambda>a b. priority a \<ge> priority b) (hooks_for (performs (constructor opts env) acts) t)
   \<and> (\<forall>p. filter (\<lambda>h. priority h = p) (hooks_for (performs (constructor opts env) acts) t)
            = filter (\<lambda>h. priority h = p) (registered (constructor opts env) acts t))
   \<and> map fst (snd (executeHooks t e (performs (constructor opts env) acts)))
       = hooks_for (performs (constructor opts env) acts) t
   \<and> fst (executeHooks t e (performs (constructor opts env) acts))
       = foldl (after_call t e) (performs (constructor opts env) acts)
           (sort_by_priority (registered (constructor opts env) acts t))"
proof -
  let ?fw = "constructor opts env"
  have "sort_by_priority (hooks_for ?fw t) = hooks_for ?fw t"
    by (simp add: constructor_hooks_for sort_by_priority_def)
  then have eq: "hooks_for (performs ?fw acts) t = sort_by_priority (registered ?fw acts t)"
    by (rule performs_hooks_for)
  have "sorted (map (\<lambda>h. - priority h) (hooks_for (performs ?fw acts) t))"
    unfolding eq sort_by_priority_def by simp
  then have srt: "sorted_wrt (\<lambda>a b. priority a \<ge> priority b) (hooks_for (performs ?fw acts) t)"
    by (simp add: sorted_map)
  have stable: "filter (\<lambda>h. priority h = p) (hooks_for (performs ?fw acts) t)
            = filter (\<lambda>h. priority h = p) (registered ?fw acts t)" for p
    using sort_key_stable[of "\<lambda>h. - priority h" "- p" "registered ?fw acts t"]
    unfolding eq sort_by_priority_def by simp
  have called: "map fst (snd (executeHooks t e (performs ?fw acts))) = hooks_for (performs ?fw acts) t"
    by (simp add: executeHooks_def forEach_called)
  have "fst (executeHooks t e (performs ?fw acts))
      = foldl (after_call t e) (performs ?fw acts) (hooks_for (performs ?fw acts) t)"
    by (simp add: executeHooks_def forEach_foldl)
  then have state: "fst (executeHooks t e (performs ?fw acts))
      = foldl (after_call t e) (performs ?fw acts) (sort_by_priority (registered ?fw acts t))"
    unfolding eq .
  from eq srt stable called state show ?thesis by blast
qed

text \<open>
  The three registrations: the listener of priority 5, registered second, is called
  first, and the two of priority 1 follow in the order of their registration; the
  counter, 0 before the dispatch, is 7 after it.
\<close>

theorem dispatch_order_witness:
  "map fn (registered (constructor offline_options counting_browser) three_registrations ''ping'')
     = [Custom doubling, Custom adding3, Custom counting]
   \<and> map priority (registered (constructor offline_options counting_browser) three_registrations ''ping'') = [1, 5, 1]
   \<and> map (fn \<circ> fst) (snd (executeHooks ''ping'' ping (performs (constructor offline_options counting_browser) three_registrations)))
     = [Custom adding3, Custom doubling, Custom counting]
   \<and> world (performs (constructor offline_options counting_browser) three_registrations) = 0
   \<and> world (fst (executeHooks ''ping'' ping (performs (constructor offline_options counting_browser) three_registrations))) = 7"
proof -
  let ?fw = "constructor offline_options counting_browser"
  have r: "registered ?fw three_registrations ''ping''
      = [\<lparr> fn = Custom doubling, priority = 1, async = False \<rparr>,
         \<lparr> fn = Custom adding3, priority = 5, async = False \<rparr>,
         \<lparr> fn = Custom counting, priority = 1, async = False \<rparr>]"
    by (simp add: registered_def constructor_hooks_for three_registrations_def)
  have s: "sort_by_priority (registered ?fw three_registrations ''ping'')
      = [\<lparr> fn = Custom adding3, priority = 5, async = False \<rparr>,
         \<lparr> fn = Custom doubling, priority = 1, async = False \<rparr>,
         \<lparr> fn = Custom counting, priority = 1, async = False \<rparr>]"
    unfolding r by (simp add: sort_by_priority_def)
  have w: "world (performs ?fw three_registrations) = 0"
    by (simp add: performs_def three_registrations_def registerHook_world constructor_world counting_browser_def)
  from dispatch_order[of offline_options counting_browser three_registrations "''ping''" ping]
  have tr: "map fst (snd (executeHooks ''ping'' ping (performs ?fw three_registrations)))
      = sort_by_priority (registered ?fw three_registrations ''ping'')"
    and st: "fst (executeHooks ''ping'' ping (performs ?fw three_registrations))
      = foldl (after_call ''ping'' ping) (performs ?fw three_registrations)
          (sort_by_priority (registered ?fw three_registrations ''ping''))"
    by simp_all
  have t: "map (fn \<circ> fst) (snd (executeHooks ''ping'' ping (performs ?fw three_registrations)))
      = [Custom adding3, Custom doubling, Custom counting]"
    using tr unfolding s by (simp flip: map_map)
  have "world (fst (executeHooks ''ping'' ping (performs ?fw three_registrations))) = 7"
    unfolding st s by (simp add: after_call_def adding3_def doubling_def counting_def w)
  with t w show ?thesis by (simp add: r)
qed

subsection \<open>Offline storage and the socket\<close>

lemma setItem_apply: "setItem k v st k' = (if k' = k then Some v else st k')"
  by (simp add: setItem_def)

lemma dom_setItem: "dom (setItem k v st) = insert k (dom st)"
  by (simp add: setItem_def)

lemma stored_dom:
  "dom (foldl (\<lambda>st e. setItem (storage_key e) e st) st es) = dom st \<union> storage_key ` set es"
  by (induction es rule: rev_induct) (simp_all add: dom_setItem)

lemma stored_lookup:
  assumes "distinct (map storage_key es)" and "e \<in> set es"
  shows "foldl (\<lambda>st e. setItem (storage_key e) e st) st es (storage_key e) = Some e"
  using assms
proof (induction es rule: rev_induct)
  case Nil
  then show ?case by simp
next
  case (snoc x xs)
  let ?m = "foldl (\<lambda>st e. setItem (storage_key e) e st) st xs"
  have last: "foldl (\<lambda>st e. setItem (storage_key e) e st) st (xs @ [x]) = setItem (storage_key x) x ?m"
    by simp
  show ?case
  proof (cases "e = x")
    case True
    show ?thesis unfolding last True by (rule trans[OF setItem_apply]) simp
  next
    case False
    then have e: "e \<in> set xs" using snoc.prems(2) by simp
    have "storage_key x \<notin> storage_key ` set xs" using snoc.prems(1) by simp
    then have k: "storage_key e \<noteq> storage_key x" using e by (metis imageI)
    have ih: "?m (storage_key e) = Some e"
      using snoc.IH snoc.prems(1) e by simp
    have "setItem (storage_key x) x ?m (storage_key e) = ?m (storage_key e)"
      by (rule trans[OF setItem_apply]) (simp only: k if_False)
    then show ?thesis unfolding last ih .
  qed
qed

lemma emit_transport:
  "offlineMode (fst (emit t d opts eid now fw)) = offlineMode fw"
  "ws (fst (emit t d opts eid now fw)) = ws fw"
  "sent (fst (emit t d opts eid now fw))
     = (if \<not> offlineMode fw \<and> ws fw = Some OPEN then sent fw @ [new_event fw t d opts eid now] else sent fw)"
  "localStorage (fst (emit t d opts eid now fw))
     = (if offlineMode fw
        then setItem (storage_key (new_event fw t d opts eid now)) (new_event fw t d opts eid now) (localStorage fw)
        else localStorage fw)"
  by (simp_all add: emit_def Let_def sendToServer_def executeHooks_frame addToHistory_frame storage_key_def)

lemma new_event_ignores:
  "new_event (fw\<lparr>ws := x\<rparr>) t d opts eid now = new_event fw t d opts eid now"
  "new_event (fw\<lparr>console := y\<rparr>) t d opts eid now = new_event fw t d opts eid now"
  by (simp_all add: new_event_def)

lemma perform_transport:
  "offlineMode (perform fw a) = offlineMode fw"
  "offlineMode fw \<Longrightarrow> sent (perform fw a) = sent fw"
  "offlineMode fw \<Longrightarrow> localStorage (perform fw a)
      = foldl (\<lambda>st e. setItem (storage_key e) e st) (localStorage fw) (map snd (filter fst (arrival fw a)))"
  by (cases a; simp add: emit_transport onConnectionOpen_def handleIncomingEvent_def executeHooks_frame
      addToHistory_frame registerHook_frame initWebSocket_def new_event_ignores)+

lemma performs_offline:
  assumes "offlineMode fw"
  shows "offlineMode (performs fw acts) \<and> sent (performs fw acts) = sent fw
       \<and> localStorage (performs fw acts)
           = foldl (\<lambda>st e. setItem (storage_key e) e st) (localStorage fw) (emitted fw acts)"
  using assms unfolding performs_def emitted_def
proof (induction acts arbitrary: fw)
  case Nil
  then show ?case by simp
next
  case (Cons a acts)
  have off: "offlineMode (perform fw a)" using Cons.prems by (simp add: perform_transport)
  from Cons.IH[OF off] Cons.prems show ?case
    by (simp add: perform_transport)
qed

lemma constructor_socket:
  "ws (constructor opts env)
     = (if (opt_offline opts \<noteq> Some False \<and> js_or_null (opt_wsUrl opts) = None) \<or> \<not> env_connects env
        then None else Some CONNECTING)"
  by (simp add: constructor_def registerDefaultHooks_def registerHook_def initWebSocket_def Let_def)

text \<open>
  Claim C8, as amended. In offline mode (the mode of an instance constructed without
  an endpoint, which never leaves it and never has a socket) nothing is sent, and
  each event that the instance emits is put into \<open>localStorage\<close> under the key
  \<open>pdl_event_\<close> followed by its id; when the ids are distinct, every emitted event
  is found under its own key afterwards, and the keys added are exactly those of the
  emitted events, one per event. The storage records no order. With a socket that
  exists and is not open, an emitted event is neither sent nor stored. When that
  socket opens, the one thing sent is the \<open>system\<close> event that
  \<open>onConnectionOpen\<close> emits; the storage is neither read nor written.
\<close>

theorem events_stored_offline_dropped_otherwise:
  "(offlineMode fw \<longrightarrow>
      sent (performs fw acts) = sent fw
      \<and> localStorage (performs fw acts)
          = foldl (\<lambda>st e. setItem (storage_key e) e st) (localStorage fw) (emitted fw acts)
      \<and> dom (localStorage (performs fw acts)) = dom (localStorage fw) \<union> storage_key ` set (emitted fw acts)
      \<and> (distinct (map storage_key (emitted fw acts)) \<longrightarrow>
          list_all (\<lambda>e. localStorage (performs fw acts) (storage_key e) = Some e) (emitted fw acts)))
   \<and> (\<not> offlineMode fw \<and> ws fw = Some rs \<and> rs \<noteq> OPEN \<longrightarrow>
        sent (fst (emit t d opts eid now fw)) = sent fw
        \<and> localStorage (fst (emit t d opts eid now fw)) = localStorage fw)
   \<and> (\<not> offlineMode fw \<and> ws fw = Some rs \<longrightarrow>
        sent (perform fw (SocketOpen eid now)) = sent fw @ [connection_event fw eid now]
        \<and> localStorage (perform fw (SocketOpen eid now)) = localStorage fw)"
proof -
  have a: "sent (performs fw acts) = sent fw
      \<and> localStorage (performs fw acts)
          = foldl (\<lambda>st e. setItem (storage_key e) e st) (localStorage fw) (emitted fw acts)
      \<and> dom (localStorage (performs fw acts)) = dom (localStorage fw) \<union> storage_key ` set (emitted fw acts)
      \<and> (distinct (map storage_key (emitted fw acts)) \<longrightarrow>
          list_all (\<lambda>e. localStorage (performs fw acts) (storage_key e) = Some e) (emitted fw acts))"
    if "offlineMode fw"
  proof -
    note p = performs_offline[OF that, of acts]
    have l: "localStorage (performs fw acts)
          = foldl (\<lambda>st e. setItem (storage_key e) e st) (localStorage fw) (emitted fw acts)"
      using p by simp
    have "list_all (\<lambda>e. localStorage (performs fw acts) (storage_key e) = Some e) (emitted fw acts)"
      if "distinct (map storage_key (emitted fw acts))"
      unfolding l list_all_iff using stored_lookup[OF that] by blast
    then show ?thesis using p by (simp add: stored_dom)
  qed
  have b: "sent (fst (emit t d opts eid now fw)) = sent fw
        \<and> localStorage (fst (emit t d opts eid now fw)) = localStorage fw"
    if "\<not> offlineMode fw \<and> ws fw = Some rs \<and> rs \<noteq> OPEN"
    using that by (simp add: emit_transport)
  have c: "sent (perform fw (SocketOpen eid now)) = sent fw @ [connection_event fw eid now]
        \<and> localStorage (perform fw (SocketOpen eid now)) = localStorage fw"
    if "\<not> offlineMode fw \<and> ws fw = Some rs"
    using that by (simp add: onConnectionOpen_def emit_transport connection_event_def new_event_ignores)
  from a b c show ?thesis by blast
qed

text \<open>
  Three calls of \<open>emit\<close> on the instance without options: nothing is sent, the
  storage holds three keys, and each emitted event is under its key.
\<close>

theorem events_stored_offline_witness:
  "offlineMode (constructor offline_options plain_browser)
   \<and> map storage_key (emitted (constructor offline_options plain_browser) (map numbered [1, 2, 3]))
       = [''pdl_event_i'', ''pdl_event_ii'', ''pdl_event_iii'']
   \<and> distinct (map storage_key (emitted (constructor offline_options plain_browser) (map numbered [1, 2, 3])))
   \<and> dom (localStorage (performs (constructor offline_options plain_browser) (map numbered [1, 2, 3])))
       = {''pdl_event_i'', ''pdl_event_ii'', ''pdl_event_iii''}
   \<and> list_all (\<lambda>e. localStorage (performs (constructor offline_options plain_browser) (map numbered [1, 2, 3]))
                        (storage_key e) = Some e)
        (emitted (constructor offline_options plain_browser) (map numbered [1, 2, 3]))
   \<and> sent (performs (constructor offline_options plain_browser) (map numbered [1, 2, 3])) = []"
proof -
  let ?fw = "constructor offline_options plain_browser" and ?acts = "map numbered [1, 2, 3]"
  have off: "offlineMode ?fw" "sent ?fw = []" "localStorage ?fw = Map.empty"
    by (simp_all add: constructor_fields offline_options_def plain_browser_def js_or_null_def)
  have ids: "map ev_id (emitted ?fw ?acts) = [''i'', ''ii'', ''iii'']"
    by (simp add: emitted_def numbered_def new_event_def numeral_3_eq_3 numeral_2_eq_2)
  have keys: "map storage_key (emitted ?fw ?acts) = [''pdl_event_i'', ''pdl_event_ii'', ''pdl_event_iii'']"
    using ids by (auto simp: storage_key_def map_eq_Cons_conv)
  have d: "distinct (map storage_key (emitted ?fw ?acts))"
    unfolding keys by simp
  have ks: "storage_key ` set (emitted ?fw ?acts) = {''pdl_event_i'', ''pdl_event_ii'', ''pdl_event_iii''}"
    using keys by (metis list.set_map list.simps(15) empty_set)
  from events_stored_offline_dropped_otherwise[where fw = ?fw and acts = ?acts] off(1) d
  have s: "sent (performs ?fw ?acts) = sent ?fw"
    and m: "dom (localStorage (performs ?fw ?acts)) = dom (localStorage ?fw) \<union> storage_key ` set (emitted ?fw ?acts)"
    and l: "list_all (\<lambda>e. localStorage (performs ?fw ?acts) (storage_key e) = Some e) (emitted ?fw ?acts)"
    by blast+
  have "dom (localStorage (performs ?fw ?acts)) = {''pdl_event_i'', ''pdl_event_ii'', ''pdl_event_iii''}"
    unfolding m ks off by simp
  with off keys d l s show ?thesis by simp
qed

text \<open>
  Claim C8 as stated fails: on an instance with an endpoint whose socket is still
  connecting, three calls of \<open>emit\<close> leave the storage empty and send nothing;
  after the socket has opened and one more event was emitted, the messages sent are
  the connection event and that later event, the three earlier events being lost.
\<close>

theorem unsent_events_lost_on_reconnect:
  "\<not> offlineMode (constructor online_options plain_browser)
   \<and> ws (constructor online_options plain_browser) = Some CONNECTING
   \<and> map ev_id (emitted (constructor online_options plain_browser) (map numbered [1, 2, 3])) = [''i'', ''ii'', ''iii'']
   \<and> localStorage (performs (constructor online_options plain_browser) (map numbered [1, 2, 3])) = Map.empty
   \<and> sent (performs (constructor online_options plain_browser) (map numbered [1, 2, 3])) = []
   \<and> map ev_id (sent (performs (constructor online_options plain_browser)
                          (map numbered [1, 2, 3] @ [SocketOpen ''open'' ''2025-01-01T00:00:00.500Z'', later])))
       = [''open'', ''later'']"
proof -
  let ?fw = "constructor online_options plain_browser"
  have on: "\<not> offlineMode ?fw" "ws ?fw = Some CONNECTING" "sent ?fw = []" "localStorage ?fw = Map.empty"
    by (simp_all add: constructor_fields constructor_socket online_options_def plain_browser_def js_or_null_def)
  have ids: "map ev_id (emitted ?fw (map numbered [1, 2, 3])) = [''i'', ''ii'', ''iii'']"
    by (simp add: emitted_def numbered_def new_event_def numeral_3_eq_3 numeral_2_eq_2)
  have three: "\<not> offlineMode (performs ?fw (map numbered [1, 2, 3]))"
    "ws (performs ?fw (map numbered [1, 2, 3])) = Some CONNECTING"
    "sent (performs ?fw (map numbered [1, 2, 3])) = []"
    "localStorage (performs ?fw (map numbered [1, 2, 3])) = Map.empty"
    using on by (simp_all add: performs_def numbered_def emit_transport)
  have "map ev_id (sent (performs ?fw (map numbered [1, 2, 3] @ [SocketOpen ''open'' ''2025-01-01T00:00:00.500Z'', later])))
       = [''open'', ''later'']"
    using three unfolding performs_def foldl_append
    by (simp add: later_def onConnectionOpen_def emit_transport new_event_def)
  with on ids three show ?thesis by blast
qed

subsection \<open>The default handlers\<close>

lemma set_add_idem: "set_add x (set_add x xs) = set_add x xs"
  by (simp add: set_add_def)

lemma distinct_set_add: "distinct xs \<Longrightarrow> distinct (set_add x xs)"
  by (simp add: set_add_def)

lemma call_fn_fields:
  assumes "call_fn h e fw = Returns fw' \<or> call_fn h e fw = Throws fw'"
  shows "currentPhase fw' = (if h = SetCurrentPhase then field (ev_data e) ''to'' else currentPhase fw)"
    and "activeAgents fw'
          = (if h = AddActiveAgent then set_add (field (ev_data e) ''agent'') (activeAgents fw) else activeAgents fw)"
  using assms
  by (cases h; auto simp: writeDevelopmentNote_def Let_def split: outcome.splits if_splits)+

lemma forEach_currentPhase:
  "currentPhase (fst (forEach hs t e fw))
     = (if list_ex (\<lambda>h. fn h = SetCurrentPhase) hs then field (ev_data e) ''to'' else currentPhase fw)"
proof (induction hs arbitrary: fw)
  case Nil
  then show ?case by simp
next
  case (Cons h hs)
  show ?case
  proof (cases "call_fn (fn h) e fw")
    case (Returns fw1)
    then show ?thesis
      using Cons.IH[of fw1] call_fn_fields(1)[of "fn h" e fw fw1]
      by (simp add: forEach_Cons del: forEach.simps(2))
  next
    case (Throws fw1)
    then show ?thesis
      using Cons.IH[of "fw1\<lparr>console := console fw1 @ [hook_error t]\<rparr>"] call_fn_fields(1)[of "fn h" e fw fw1]
      by (simp add: forEach_Cons del: forEach.simps(2))
  qed
qed

lemma forEach_activeAgents:
  "activeAgents (fst (forEach hs t e fw))
     = (if list_ex (\<lambda>h. fn h = AddActiveAgent) hs
        then set_add (field (ev_data e) ''agent'') (activeAgents fw) else activeAgents fw)"
proof (induction hs arbitrary: fw)
  case Nil
  then show ?case by simp
next
  case (Cons h hs)
  show ?case
  proof (cases "call_fn (fn h) e fw")
    case (Returns fw1)
    then show ?thesis
      using Cons.IH[of fw1] call_fn_fields(2)[of "fn h" e fw fw1]
      by (simp add: forEach_Cons set_add_idem del: forEach.simps(2))
  next
    case (Throws fw1)
    then show ?thesis
      using Cons.IH[of "fw1\<lparr>console := console fw1 @ [hook_error t]\<rparr>"] call_fn_fields(2)[of "fn h" e fw fw1]
      by (simp add: forEach_Cons set_add_idem del: forEach.simps(2))
  qed
qed

lemma bound_to_frame: "hooks fw' = hooks fw \<Longrightarrow> bound_to f fw' t = bound_to f fw t"
  by (simp add: bound_to_def hooks_for_def)

lemma executeHooks_fields:
  "currentPhase (fst (executeHooks t e fw))
     = (if bound_to SetCurrentPhase fw t then field (ev_data e) ''to'' else currentPhase fw)"
  "activeAgents (fst (executeHooks t e fw))
     = (if bound_to AddActiveAgent fw t then set_add (field (ev_data e) ''agent'') (activeAgents fw)
        else activeAgents fw)"
  by (simp_all add: executeHooks_def forEach_currentPhase forEach_activeAgents bound_to_def)

lemma new_event_data: "ev_data (new_event fw t d opts eid now) = d"
  by (simp add: new_event_def)

lemma emit_fields:
  "hooks (fst (emit t d opts eid now fw)) = hooks fw"
  "currentPhase (fst (emit t d opts eid now fw))
     = (if bound_to SetCurrentPhase fw t then field d ''to'' else currentPhase fw)"
  "activeAgents (fst (emit t d opts eid now fw))
     = (if bound_to AddActiveAgent fw t then set_add (field d ''agent'') (activeAgents fw) else activeAgents fw)"
proof -
  let ?e = "new_event fw t d opts eid now"
  have b: "bound_to f (addToHistory ?e fw) t = bound_to f fw t" for f
    by (rule bound_to_frame) (simp add: addToHistory_frame)
  show "hooks (fst (emit t d opts eid now fw)) = hooks fw"
    by (simp add: emit_def Let_def sendToServer_frame executeHooks_frame addToHistory_frame)
  show "currentPhase (fst (emit t d opts eid now fw))
     = (if bound_to SetCurrentPhase fw t then field d ''to'' else currentPhase fw)"
    by (simp add: emit_def Let_def sendToServer_frame executeHooks_fields b new_event_data addToHistory_frame)
  show "activeAgents (fst (emit t d opts eid now fw))
     = (if bound_to AddActiveAgent fw t then set_add (field d ''agent'') (activeAgents fw) else activeAgents fw)"
    by (simp add: emit_def Let_def sendToServer_frame executeHooks_fields b new_event_data addToHistory_frame)
qed

lemma incoming_fields:
  "hooks (handleIncomingEvent e fw) = hooks fw"
  "currentPhase (handleIncomingEvent e fw)
     = (if bound_to SetCurrentPhase fw (ev_type e) then field (ev_data e) ''to'' else currentPhase fw)"
  "activeAgents (handleIncomingEvent e fw)
     = (if bound_to AddActiveAgent fw (ev_type e)
        then set_add (field (ev_data e) ''agent'') (activeAgents fw) else activeAgents fw)"
proof -
  have b: "bound_to f (addToHistory e fw) t = bound_to f fw t" for f t
    by (rule bound_to_frame) (simp add: addToHistory_frame)
  show "hooks (handleIncomingEvent e fw) = hooks fw"
    by (simp add: handleIncomingEvent_def executeHooks_frame addToHistory_frame)
  show "currentPhase (handleIncomingEvent e fw)
     = (if bound_to SetCurrentPhase fw (ev_type e) then field (ev_data e) ''to'' else currentPhase fw)"
    by (simp add: handleIncomingEvent_def executeHooks_fields b addToHistory_frame)
  show "activeAgents (handleIncomingEvent e fw)
     = (if bound_to AddActiveAgent fw (ev_type e)
        then set_add (field (ev_data e) ''agent'') (activeAgents fw) else activeAgents fw)"
    by (simp add: handleIncomingEvent_def executeHooks_fields b addToHistory_frame)
qed

lemma bound_to_fields [simp]:
  "bound_to f (fw\<lparr>ws := x\<rparr>) t = bound_to f fw t"
  "bound_to f (fw\<lparr>console := y\<rparr>) t = bound_to f fw t"
  by (simp_all add: bound_to_def hooks_for_def)

lemma perform_bound_to:
  assumes "f = SetCurrentPhase \<or> f = AddActiveAgent"
  shows "bound_to f (perform fw a) t = bound_to f fw t"
proof (cases "registration t a = []")
  case True
  then show ?thesis by (simp add: bound_to_def perform_hooks_for)
next
  case False
  then obtain eventType g options where a: "a = RegisterHook eventType g options" and t: "eventType = t"
    by (cases a) (auto split: if_splits)
  have "set (hooks_for (perform fw a) t) = set (hooks_for fw t) \<union> set (registration t a)"
    using False by (simp add: perform_hooks_for sort_by_priority_def)
  then show ?thesis
    using assms by (auto simp: bound_to_def list_ex_iff a t)
qed

lemma perform_defaults: "defaults_in_place fw \<Longrightarrow> defaults_in_place (perform fw a)"
  by (simp add: defaults_in_place_def perform_bound_to)

lemma performs_defaults: "defaults_in_place fw \<Longrightarrow> defaults_in_place (performs fw acts)"
  unfolding performs_def by (induction acts arbitrary: fw) (simp_all add: perform_defaults)

lemma constructor_defaults: "defaults_in_place (constructor opts env)"
  by (auto simp: defaults_in_place_def bound_to_def constructor_hooks_for)







lemma perform_distinct: "distinct (activeAgents fw) \<Longrightarrow> distinct (activeAgents (perform fw a))"
  by (cases a)
    (simp_all add: emit_fields incoming_fields onConnectionOpen_def registerHook_frame initWebSocket_def
      distinct_set_add)

lemma performs_distinct: "distinct (activeAgents fw) \<Longrightarrow> distinct (activeAgents (performs fw acts))"
  unfolding performs_def by (induction acts arbitrary: fw) (simp_all add: perform_distinct)

text \<open>
  Claim C10. In every state, a second \<open>emit\<close> of type \<open>agent_assigned\<close> with
  the same \<open>data.agent\<close> leaves \<open>activeAgents\<close> as the first one left it. On
  an instance in any state reached after its construction, such an \<open>emit\<close> adds
  \<open>data.agent\<close> to the set, and the \<open>activeAgents\<close> that
  \<open>getCurrentState\<close> returns has no duplicates.
\<close>

theorem agent_assigned_idempotent:
  "(field d1 ''agent'' = field d2 ''agent'' \<longrightarrow>
      activeAgents (fst (emit ''agent_assigned'' d2 o2 i2 n2 (fst (emit ''agent_assigned'' d1 o1 i1 n1 fw))))
        = activeAgents (fst (emit ''agent_assigned'' d1 o1 i1 n1 fw)))
   \<and> activeAgents (fst (emit ''agent_assigned'' d1 o1 i1 n1 (performs (constructor opts env) acts)))
       = set_add (field d1 ''agent'') (activeAgents (performs (constructor opts env) acts))
   \<and> snap_activeAgents (getCurrentState (performs (constructor opts env) acts))
       = activeAgents (performs (constructor opts env) acts)
   \<and> distinct (snap_activeAgents (getCurrentState (performs (constructor opts env) acts)))"
proof -
  let ?fw = "performs (constructor opts env) acts"
  have idem: "activeAgents (fst (emit ''agent_assigned'' d2 o2 i2 n2 (fst (emit ''agent_assigned'' d1 o1 i1 n1 fw))))
        = activeAgents (fst (emit ''agent_assigned'' d1 o1 i1 n1 fw))"
    if "field d1 ''agent'' = field d2 ''agent''"
  proof -
    have "bound_to AddActiveAgent (fst (emit ''agent_assigned'' d1 o1 i1 n1 fw)) ''agent_assigned''
        = bound_to AddActiveAgent fw ''agent_assigned''"
      by (rule bound_to_frame) (simp add: emit_fields)
    then show ?thesis
      using that by (simp add: emit_fields set_add_idem)
  qed
  have d: "defaults_in_place ?fw"
    by (simp add: performs_defaults constructor_defaults)
  then have add: "activeAgents (fst (emit ''agent_assigned'' d1 o1 i1 n1 ?fw))
       = set_add (field d1 ''agent'') (activeAgents ?fw)"
    by (simp add: emit_fields defaults_in_place_def)
  have dist: "distinct (activeAgents ?fw)"
    by (rule performs_distinct) (simp add: constructor_fields)
  have snap: "snap_activeAgents (getCurrentState ?fw) = activeAgents ?fw"
    by (simp add: getCurrentState_def)
  from idem add snap dist show ?thesis by simp
qed


text \<open>Two assignments of the agent \<open>dev\<close>, in different roles, on a new instance.\<close>

theorem agent_assigned_idempotent_witness:
  "field as_lead ''agent'' = field as_reviewer ''agent''
   \<and> activeAgents (fst (emit ''agent_assigned'' as_lead no_opts ''e1'' ''t1''
        (performs (constructor offline_options plain_browser) []))) = [JStr ''dev'']
   \<and> activeAgents (fst (emit ''agent_assigned'' as_reviewer no_opts ''e2'' ''t2''
        (fst (emit ''agent_assigned'' as_lead no_opts ''e1'' ''t1''
           (performs (constructor offline_options plain_browser) []))))) = [JStr ''dev'']"
proof -
  let ?fw = "performs (constructor offline_options plain_browser) []"
  have a: "field as_lead ''agent'' = field as_reviewer ''agent''"
    and v: "field as_lead ''agent'' = JStr ''dev''"
    by (simp_all add: as_lead_def as_reviewer_def field_def)
  have e: "activeAgents ?fw = []"
    by (simp add: performs_def constructor_fields)
  from agent_assigned_idempotent[where fw = ?fw and ?d1.0 = as_lead and ?d2.0 = as_reviewer
      and opts = offline_options and env = plain_browser and acts = "[]"
      and ?o1.0 = no_opts and ?i1.0 = "''e1''" and ?n1.0 = "''t1''"
      and ?o2.0 = no_opts and ?i2.0 = "''e2''" and ?n2.0 = "''t2''"] a
  have twice: "activeAgents (fst (emit ''agent_assigned'' as_reviewer no_opts ''e2'' ''t2''
          (fst (emit ''agent_assigned'' as_lead no_opts ''e1'' ''t1'' ?fw))))
        = activeAgents (fst (emit ''agent_assigned'' as_lead no_opts ''e1'' ''t1'' ?fw))"
    and once: "activeAgents (fst (emit ''agent_assigned'' as_lead no_opts ''e1'' ''t1'' ?fw))
        = set_add (field as_lead ''agent'') (activeAgents ?fw)"
    by blast+
  have "activeAgents (fst (emit ''agent_assigned'' as_lead no_opts ''e1'' ''t1'' ?fw)) = [JStr ''dev'']"
    unfolding once v e by (simp add: set_add_def)
  with a twice show ?thesis by simp
qed

end
